theory Spec2Isabelle
  imports Main
begin

section \<open>Values of the address book\<close>

text \<open>
  A Python \<open>str\<close> is a sequence of code points. Names, phones and messages are
  modelled by \<open>string\<close>, each \<open>char\<close> standing for the code point of the same
  number, so that part of the model covers the strings whose code points lie in
  U+0000..U+00FF. \<open>len\<close> is \<open>length\<close> and \<open>==\<close> on strings is equality. The
  parser of dates takes a list of code points (\<open>pystr\<close> below), which every Python
  \<open>str\<close> is.

  Exceptions are values. \<open>ValueError\<close> carries its message (the messages of the
  standard library are abridged), \<open>AttributeError\<close> the name of the attribute that
  was looked up on an object that has none.
\<close>

datatype error =
    ValueError string
  | IndexError
  | KeyError string
  | AttributeError string
  | OverflowError

text \<open>A \<open>datetime.date\<close>: the value a \<open>Birthday\<close> field holds.\<close>

record date =
  year :: nat
  month :: nat
  day :: nat

text \<open>
  A \<open>datetime.datetime\<close> without time zone: what \<open>datetime.now()\<close> returns and what
  \<open>datetime.strptime\<close> builds (with the time fields it did not parse at zero).
\<close>

record datetime =
  date_part :: date
  hour :: nat
  minute :: nat
  second :: nat
  microsecond :: nat

text \<open>
  \<open>class Record\<close>: \<open>name\<close> is the value of its \<open>Name\<close> field, \<open>phones\<close> the values
  of its \<open>Phone\<close> objects in list order, \<open>birthday\<close> is \<open>None\<close> or the date of its
  \<open>Birthday\<close> field. Every \<open>Phone\<close> object is created by \<open>add_phone\<close> and put in one
  list once, so no two list positions share an object and a phone is known by its
  position and value.
\<close>

record Record =
  name :: string
  phones :: "string list"
  birthday :: "date option"

section \<open>Phone\<close>

text \<open>
  \<open>str.isdigit\<close>: true when the string is not empty and every character has the
  Unicode property Numeric_Type=Digit or Numeric_Type=Decimal. Below U+0100 these are
  the ASCII digits (48..57) and the superscripts two, three and one (U+00B2, U+00B3,
  U+00B9).
\<close>

definition isdigit_char :: "char \<Rightarrow> bool" where
  "isdigit_char c =
     (let n = (of_char c :: nat)
      in (48 \<le> n \<and> n \<le> 57) \<or> n = 178 \<or> n = 179 \<or> n = 185)"

text \<open>The ASCII decimal digits, \<open>0\<close> to \<open>9\<close>.\<close>

definition ascii_digit :: "char \<Rightarrow> bool" where
  "ascii_digit c = (48 \<le> (of_char c :: nat) \<and> (of_char c :: nat) \<le> 57)"

definition isdigit :: "string \<Rightarrow> bool" where
  "isdigit s = (s \<noteq> [] \<and> list_all isdigit_char s)"

definition Phone_validate :: "string \<Rightarrow> bool" where
  "Phone_validate phone_number = (isdigit phone_number \<and> length phone_number = 10)"

definition Phone :: "string \<Rightarrow> error + string" where
  "Phone v =
     (if \<not> Phone_validate v then Inl (ValueError ''Phone number must contain 10 digits'')
      else Inr v)"

section \<open>The calendar of the datetime module\<close>

text \<open>
  The proleptic Gregorian calendar as \<open>datetime\<close> computes it: \<open>toordinal\<close> counts
  days from 0001-01-01 (ordinal 1), \<open>weekday\<close> is 0 on Monday and 6 on Sunday.
\<close>

definition is_leap :: "nat \<Rightarrow> bool" where
  "is_leap y = (y mod 4 = 0 \<and> (y mod 100 \<noteq> 0 \<or> y mod 400 = 0))"

definition days_in_month :: "nat \<Rightarrow> nat \<Rightarrow> nat" where
  "days_in_month y m =
     (if m = 2 \<and> is_leap y then 29
      else [0, 31, 28, 31, 30, 31, 30, 31, 31, 30, 31, 30, 31] ! m)"

definition days_before_year :: "nat \<Rightarrow> nat" where
  "days_before_year y = (let z = y - 1 in z * 365 + z div 4 - z div 100 + z div 400)"

definition days_before_month :: "nat \<Rightarrow> nat \<Rightarrow> nat" where
  "days_before_month y m =
     [0, 0, 31, 59, 90, 120, 151, 181, 212, 243, 273, 304, 334] ! m
       + (if m > 2 \<and> is_leap y then 1 else 0)"

definition toordinal :: "date \<Rightarrow> nat" where
  "toordinal d = days_before_year (year d) + days_before_month (year d) (month d) + day d"

definition weekday :: "date \<Rightarrow> nat" where
  "weekday d = (toordinal d + 6) mod 7"

text \<open>The dates the \<open>date\<close> constructor accepts, but for the upper bound on the year.\<close>

definition valid_date :: "date \<Rightarrow> bool" where
  "valid_date d =
     (1 \<le> year d \<and> 1 \<le> month d \<and> month d \<le> 12
      \<and> 1 \<le> day d \<and> day d \<le> days_in_month (year d) (month d))"

text \<open>The constructor \<open>date(y, m, d)\<close>, which checks its fields.\<close>

definition datetime_date :: "nat \<Rightarrow> nat \<Rightarrow> nat \<Rightarrow> error + date" where
  "datetime_date y m d =
     (if \<not> (1 \<le> y \<and> y \<le> 9999) then Inl (ValueError ''year is out of range'')
      else if \<not> (1 \<le> m \<and> m \<le> 12) then Inl (ValueError ''month must be in 1..12'')
      else if \<not> (1 \<le> d \<and> d \<le> days_in_month y m)
        then Inl (ValueError ''day is out of range for month'')
      else Inr \<lparr>year = y, month = m, day = d\<rparr>)"

text \<open>
  Adding \<open>timedelta(days=k)\<close>: the library adds \<open>k\<close> to the ordinal, raises
  \<open>OverflowError\<close> past the ordinal 3652059 of 9999-12-31, and turns the ordinal back
  into a date. The way back is modelled by stepping to the next day \<open>k\<close> times
  (lemma \<open>toordinal_next_day\<close> below ties the two).
\<close>

definition next_day :: "date \<Rightarrow> date" where
  "next_day d =
     (if day d < days_in_month (year d) (month d) then d\<lparr>day := day d + 1\<rparr>
      else if month d < 12 then d\<lparr>month := month d + 1, day := 1\<rparr>
      else \<lparr>year = year d + 1, month = 1, day = 1\<rparr>)"

definition date_add_days :: "date \<Rightarrow> nat \<Rightarrow> error + date" where
  "date_add_days d k =
     (if toordinal d + k \<le> 3652059 then Inr ((next_day ^^ k) d) else Inl OverflowError)"

text \<open>
  \<open>(a - b).days\<close> for two datetimes: a \<open>timedelta\<close> is normalised so that its seconds
  and microseconds are not negative, hence \<open>days\<close> is the floor of the difference in
  days.
\<close>

definition total_microseconds :: "datetime \<Rightarrow> int" where
  "total_microseconds t =
     ((int (toordinal (date_part t)) * 24 + int (hour t)) * 60 + int (minute t)) * 60000000
       + int (second t) * 1000000 + int (microsecond t)"

definition timedelta_days :: "datetime \<Rightarrow> datetime \<Rightarrow> int" where
  "timedelta_days a b = (total_microseconds a - total_microseconds b) div 86400000000"

definition midnight :: "date \<Rightarrow> datetime" where
  "midnight d = \<lparr>date_part = d, hour = 0, minute = 0, second = 0, microsecond = 0\<rparr>"

section \<open>Formatting and parsing dates\<close>

text \<open>\<open>str(n)\<close> of a natural number, as an f-string prints it: decimal, no padding.\<close>

definition digit_char :: "nat \<Rightarrow> char" where
  "digit_char n = ''0123456789'' ! n"

fun str_nat :: "nat \<Rightarrow> string" where
  "str_nat n = (if n < 10 then [digit_char n] else str_nat (n div 10) @ [digit_char (n mod 10)])"

declare str_nat.simps [simp del]

definition zero_pad2 :: "nat \<Rightarrow> string" where
  "zero_pad2 n = (if n < 10 then CHR ''0'' # str_nat n else str_nat n)"

text \<open>
  \<open>strftime('%Y.%m.%d')\<close>: month and day on two digits; the year as the C library
  prints it, which is four digits for the years 1000 to 9999.
\<close>

definition strftime_Ymd :: "date \<Rightarrow> string" where
  "strftime_Ymd d = str_nat (year d) @ ''.'' @ zero_pad2 (month d) @ ''.'' @ zero_pad2 (day d)"

text \<open>The shape \<open>YYYY.MM.DD\<close>: ten characters, digits but for the two dots.\<close>

definition is_YYYY_MM_DD :: "string \<Rightarrow> bool" where
  "is_YYYY_MM_DD s =
     (case s of
        [y1, y2, y3, y4, p, m1, m2, q, d1, d2] \<Rightarrow>
          list_all ascii_digit [y1, y2, y3, y4, m1, m2, d1, d2] \<and> p = CHR ''.'' \<and> q = CHR ''.''
      | _ \<Rightarrow> False)"

text \<open>
  \<open>strptime\<close> and \<open>int\<close> read the code points of a string, so their argument is a list
  of code points (\<open>pystr\<close>): every Python \<open>str\<close> is one. \<open>code_points\<close> gives the code
  points of a string of the model.
\<close>

type_synonym pystr = "nat list"

definition code_points :: "string \<Rightarrow> pystr" where
  "code_points s = map of_char s"

text \<open>
  The Unicode decimal digits (category Nd, the characters \<open>str.isdecimal\<close> accepts and
  the regular expression \<open>\d\<close> matches on a \<open>str\<close>). They come in runs of ten, from
  the digit zero of a script to its digit nine; \<open>decimal_zeros\<close> lists the code point of
  each zero, as the Unicode 14.0 tables of Python 3.11 have them, the ASCII \<open>0\<close> first.
  \<open>decimal_value\<close> is the digit's value, which is what \<open>int\<close> reads it as.
\<close>

definition decimal_zeros :: "nat list" where
  "decimal_zeros =
     [48, 1632, 1776, 1984, 2406, 2534, 2662, 2790, 2918, 3046, 3174, 3302, 3430, 3558,
      3664, 3792, 3872, 4160, 4240, 6112, 6160, 6470, 6608, 6784, 6800, 6992, 7088, 7232,
      7248, 42528, 43216, 43264, 43472, 43504, 43600, 44016, 65296, 66720, 68912, 69734,
      69872, 69942, 70096, 70384, 70736, 70864, 71248, 71360, 71472, 71904, 72016, 72784,
      73040, 73120, 92768, 92864, 93008, 120782, 120792, 120802, 120812, 120822, 123200,
      123632, 125264, 130032]"

definition decimal_value :: "nat \<Rightarrow> nat option" where
  "decimal_value c =
     map_option (\<lambda>z. c - z) (find (\<lambda>z. z \<le> c \<and> c \<le> z + 9) decimal_zeros)"

text \<open>
  \<open>strptime\<close> turns the format into a regular expression and matches it at the start
  of the string. A matcher gives every way its expression matches a prefix of the
  input, as (matched text, rest), in the order backtracking tries them; the first
  complete match is the one \<open>re.match\<close> returns. The directives are
  \<^item> \<open>%d\<close>: \<open>3[0-1]|[1-2]\d|0[1-9]|[1-9]| [1-9]\<close>,
  \<^item> \<open>%m\<close>: \<open>1[0-2]|0[1-9]|[1-9]\<close>,
  \<^item> \<open>%Y\<close>: \<open>\d\d\d\d\<close>,
  and a dot of the format matches itself. A class such as \<open>[1-9]\<close> and a literal
  match the ASCII characters only (the flag \<open>IGNORECASE\<close> of \<open>strptime\<close> adds none to
  them); \<open>\d\<close> matches every Unicode decimal digit.
\<close>

type_synonym matcher = "pystr \<Rightarrow> (pystr \<times> pystr) list"

definition re_class :: "char \<Rightarrow> char \<Rightarrow> matcher" where
  "re_class lo hi s =
     (case s of
        [] \<Rightarrow> []
      | c # r \<Rightarrow> if of_char lo \<le> c \<and> c \<le> of_char hi then [([c], r)] else [])"

definition re_lit :: "char \<Rightarrow> matcher" where
  "re_lit c = re_class c c"

definition re_seq :: "matcher \<Rightarrow> matcher \<Rightarrow> matcher" where
  "re_seq p q s = concat (map (\<lambda>(a, r). map (\<lambda>(b, r'). (a @ b, r')) (q r)) (p s))"

definition re_alt :: "matcher \<Rightarrow> matcher \<Rightarrow> matcher" where
  "re_alt p q s = p s @ q s"

definition re_digit :: matcher where
  "re_digit s =
     (case s of
        [] \<Rightarrow> []
      | c # r \<Rightarrow> if decimal_value c \<noteq> None then [([c], r)] else [])"

definition re_d :: matcher where
  "re_d =
     re_alt (re_seq (re_lit CHR ''3'') (re_class CHR ''0'' CHR ''1''))
    (re_alt (re_seq (re_class CHR ''1'' CHR ''2'') re_digit)
    (re_alt (re_seq (re_lit CHR ''0'') (re_class CHR ''1'' CHR ''9''))
    (re_alt (re_class CHR ''1'' CHR ''9'')
            (re_seq (re_lit CHR '' '') (re_class CHR ''1'' CHR ''9'')))))"

definition re_m :: matcher where
  "re_m =
     re_alt (re_seq (re_lit CHR ''1'') (re_class CHR ''0'' CHR ''2''))
    (re_alt (re_seq (re_lit CHR ''0'') (re_class CHR ''1'' CHR ''9''))
            (re_class CHR ''1'' CHR ''9''))"

definition re_Y :: matcher where
  "re_Y = re_seq re_digit (re_seq re_digit (re_seq re_digit re_digit))"

text \<open>
  A directive followed by the dot of the format: the group is the text the directive
  matched, the rest is what follows the dot.
\<close>

definition then_dot :: "matcher \<Rightarrow> matcher" where
  "then_dot p s = [(a, r'). (a, r) \<leftarrow> p s, (dot, r') \<leftarrow> re_lit CHR ''.'' r]"

text \<open>
  The matches of \<open>%d.%m.%Y\<close> and of \<open>%Y.%m.%d\<close>, each with its groups in the order
  (day, month, year) and the input left over.
\<close>

definition match_dmY :: "pystr \<Rightarrow> (pystr \<times> pystr \<times> pystr \<times> pystr) list" where
  "match_dmY s =
     [(d, m, y, r3).
        (d, r1) \<leftarrow> then_dot re_d s, (m, r2) \<leftarrow> then_dot re_m r1, (y, r3) \<leftarrow> re_Y r2]"

definition match_Ymd :: "pystr \<Rightarrow> (pystr \<times> pystr \<times> pystr \<times> pystr) list" where
  "match_Ymd s =
     [(d, m, y, r3).
        (y, r1) \<leftarrow> then_dot re_Y s, (m, r2) \<leftarrow> then_dot re_m r1, (d, r3) \<leftarrow> re_d r2]"

text \<open>
  \<open>int(group)\<close> on a group of the match: the group is made of decimal digits, after
  the blank that the last alternative of \<open>%d\<close> lets in and \<open>int\<close> strips; each digit
  counts with its value, whatever its script.
\<close>

definition py_int :: "pystr \<Rightarrow> nat" where
  "py_int s =
     foldl (\<lambda>a c. 10 * a + (case decimal_value c of Some v \<Rightarrow> v | None \<Rightarrow> 0)) 0
       (dropWhile (\<lambda>c. c = of_char CHR '' '') s)"

text \<open>
  After the match: no match and input left after the match are \<open>ValueError\<close>s, and so
  is a day, month or year the \<open>date\<close> constructor refuses.
\<close>

definition strptime_found :: "(pystr \<times> pystr \<times> pystr \<times> pystr) list \<Rightarrow> error + date" where
  "strptime_found found =
     (case found of
        [] \<Rightarrow> Inl (ValueError ''time data does not match format'')
      | (d, m, y, rest) # others \<Rightarrow>
          if rest \<noteq> [] then Inl (ValueError ''unconverted data remains'')
          else datetime_date (py_int y) (py_int m) (py_int d))"

definition strptime_dmY :: "pystr \<Rightarrow> error + date" where
  "strptime_dmY data_string = strptime_found (match_dmY data_string)"

definition strptime_Ymd :: "pystr \<Rightarrow> error + date" where
  "strptime_Ymd data_string = strptime_found (match_Ymd data_string)"

section \<open>Birthday\<close>

text \<open>
  \<open>Birthday.__init__\<close>, on the code points of its argument: any \<open>ValueError\<close> of
  \<open>strptime\<close> is replaced by the class's own; the field holds the date.
\<close>

definition Birthday :: "pystr \<Rightarrow> error + date" where
  "Birthday v =
     (case strptime_dmY v of
        Inr d \<Rightarrow> Inr d
      | Inl (ValueError msg) \<Rightarrow> Inl (ValueError ''Invalid date format. Use DD.MM.YYYY'')
      | Inl e \<Rightarrow> Inl e)"

text \<open>
  The spellings of a date that the properties of \<open>Birthday\<close> are stated with.
  \<^item> The year, below 10000, is written with four decimal digits of any script, whose
    values are its thousands, hundreds, tens and units (\<open>year_text\<close>).
  \<^item> The month is written with two ASCII digits, and a month below 10 also with one
    (\<open>month_text\<close>).
  \<^item> The day is written with two ASCII digits; a day below 10 also with one ASCII
    digit, or a blank and that digit; a day from 10 to 29 also with its ASCII tens
    digit and a decimal digit of any script for the units (\<open>day_text\<close>).
  \<open>is_DD_MM_YYYY\<close> is the strict shape: ten characters that are ASCII digits but for
  the two dots.
\<close>

definition zero_pad4 :: "nat \<Rightarrow> string" where
  "zero_pad4 n =
     [digit_char (n div 1000 mod 10), digit_char (n div 100 mod 10),
      digit_char (n div 10 mod 10), digit_char (n mod 10)]"

definition day_texts :: "nat \<Rightarrow> string list" where
  "day_texts d = zero_pad2 d # (if d < 10 then [str_nat d, CHR '' '' # str_nat d] else [])"

definition month_texts :: "nat \<Rightarrow> string list" where
  "month_texts m = zero_pad2 m # (if m < 10 then [str_nat m] else [])"

definition day_text :: "pystr \<Rightarrow> nat \<Rightarrow> bool" where
  "day_text ds d =
     (ds \<in> set (map code_points (day_texts d))
      \<or> (10 \<le> d \<and> d \<le> 29
          \<and> (case ds of
                [a, u] \<Rightarrow> a = 48 + d div 10 \<and> decimal_value u = Some (d mod 10)
              | _ \<Rightarrow> False)))"

definition month_text :: "pystr \<Rightarrow> nat \<Rightarrow> bool" where
  "month_text ms m = (ms \<in> set (map code_points (month_texts m)))"

definition year_text :: "pystr \<Rightarrow> nat \<Rightarrow> bool" where
  "year_text ys y =
     (y < 10000
      \<and> list_all2 (\<lambda>c v. decimal_value c = Some v) ys
            [y div 1000 mod 10, y div 100 mod 10, y div 10 mod 10, y mod 10])"

definition is_DD_MM_YYYY :: "string \<Rightarrow> bool" where
  "is_DD_MM_YYYY s =
     (case s of
        [d1, d2, p, m1, m2, q, y1, y2, y3, y4] \<Rightarrow>
          list_all ascii_digit [d1, d2, m1, m2, y1, y2, y3, y4] \<and> p = CHR ''.'' \<and> q = CHR ''.''
      | _ \<Rightarrow> False)"

section \<open>Record\<close>

definition Record_init :: "string \<Rightarrow> Record" where
  "Record_init n = \<lparr>name = n, phones = [], birthday = None\<rparr>"

definition add_phone :: "Record \<Rightarrow> string \<Rightarrow> error + Record" where
  "add_phone self phone =
     (case Phone phone of
        Inl e \<Rightarrow> Inl e
      | Inr p \<Rightarrow> Inr (self\<lparr>phones := phones self @ [p]\<rparr>))"

text \<open>
  \<open>edit_phone\<close>: the loop over \<open>self.phones\<close> assigns \<open>new_phone\<close> to the value of the
  first phone whose value equals \<open>old_phone\<close> and breaks. The method has no
  \<open>return\<close> and no \<open>raise\<close>: every call ends normally (\<open>Inr\<close>) with the record as the
  loop left it.
\<close>

fun edit_phone_loop :: "string list \<Rightarrow> string \<Rightarrow> string \<Rightarrow> string list" where
  "edit_phone_loop [] old_phone new_phone = []"
| "edit_phone_loop (phone # rest) old_phone new_phone =
     (if phone = old_phone then new_phone # rest
      else phone # edit_phone_loop rest old_phone new_phone)"

definition edit_phone :: "Record \<Rightarrow> string \<Rightarrow> string \<Rightarrow> error + Record" where
  "edit_phone self old_phone new_phone =
     Inr (self\<lparr>phones := edit_phone_loop (phones self) old_phone new_phone\<rparr>)"

text \<open>\<open>find_phone\<close> returns the value of the first match, and \<open>None\<close> when the loop ends.\<close>

fun find_phone_loop :: "string list \<Rightarrow> string \<Rightarrow> string option" where
  "find_phone_loop [] phone = None"
| "find_phone_loop (p # rest) phone =
     (if p = phone then Some p else find_phone_loop rest phone)"

definition find_phone :: "Record \<Rightarrow> string \<Rightarrow> string option" where
  "find_phone self phone = find_phone_loop (phones self) phone"

text \<open>
  \<open>remove_phone\<close>: at the first \<open>p\<close> whose value equals \<open>phone\<close> the loop calls
  \<open>self.phones.remove(p)\<close>, which deletes the first position holding the object
  \<open>p\<close>, that is the position the loop is at, and breaks.
\<close>

fun remove_phone_loop :: "string list \<Rightarrow> string \<Rightarrow> string list" where
  "remove_phone_loop [] phone = []"
| "remove_phone_loop (p # rest) phone =
     (if p = phone then rest else p # remove_phone_loop rest phone)"

definition remove_phone :: "Record \<Rightarrow> string \<Rightarrow> error + Record" where
  "remove_phone self phone =
     Inr (self\<lparr>phones := remove_phone_loop (phones self) phone\<rparr>)"

text \<open>\<open>add_birthday\<close> hands the code points of its argument to \<open>Birthday\<close>.\<close>

definition Record_add_birthday :: "Record \<Rightarrow> string \<Rightarrow> error + Record" where
  "Record_add_birthday self b =
     (case Birthday (code_points b) of
        Inl e \<Rightarrow> Inl e
      | Inr d \<Rightarrow> Inr (self\<lparr>birthday := Some d\<rparr>))"

section \<open>AddressBook\<close>

text \<open>
  \<open>self.data\<close> is a \<open>dict\<close> from names to records. A \<open>dict\<close> keeps its keys in
  insertion order and \<open>values()\<close> follows it, so the dictionary is an association list:
  assigning to a key that is present replaces the value where it stands, a new key goes
  to the end.
\<close>

type_synonym AddressBook = "(string \<times> Record) list"

fun dict_set :: "('k \<times> 'v) list \<Rightarrow> 'k \<Rightarrow> 'v \<Rightarrow> ('k \<times> 'v) list" where
  "dict_set [] k v = [(k, v)]"
| "dict_set ((k', v') # rest) k v =
     (if k' = k then (k, v) # rest else (k', v') # dict_set rest k v)"

definition dict_values :: "('k \<times> 'v) list \<Rightarrow> 'v list" where
  "dict_values d = map snd d"

text \<open>What the methods return: \<open>None\<close>, a \<open>str\<close>, a \<open>Birthday\<close> field or a \<open>Record\<close>.\<close>

datatype pyval = PyNone | PyStr string | PyBirthday date | PyRecord Record

text \<open>\<open>args[i]\<close> and the unpacking of \<open>args\<close> into two or three names.\<close>

definition subscript :: "'a list \<Rightarrow> nat \<Rightarrow> error + 'a" where
  "subscript xs i = (if i < length xs then Inr (xs ! i) else Inl IndexError)"

definition unpack2 :: "'a list \<Rightarrow> error + ('a \<times> 'a)" where
  "unpack2 xs =
     (case xs of
        [a, b] \<Rightarrow> Inr (a, b)
      | _ \<Rightarrow> Inl (ValueError ''wrong number of values to unpack''))"

definition unpack3 :: "'a list \<Rightarrow> error + ('a \<times> 'a \<times> 'a)" where
  "unpack3 xs =
     (case xs of
        [a, b, c] \<Rightarrow> Inr (a, b, c)
      | _ \<Rightarrow> Inl (ValueError ''wrong number of values to unpack''))"

text \<open>
  The decorator \<open>input_error\<close>: a \<open>ValueError\<close> or an \<open>IndexError\<close> of the wrapped
  method becomes a message that the method returns; any other exception goes on to
  the caller. \<open>ret\<close> makes the method's result from the message (the methods raise
  before they change the book, so the book is then the one they were called on).
\<close>

definition give_me_correct_values :: string where
  "give_me_correct_values =
     ''Give me correct values.'' @ [CHR 0x0A]
       @ ''Type '' @ [CHR 0x27] @ ''help'' @ [CHR 0x27]
       @ '' to see available commands.''"

definition invalid_number_of_arguments :: string where
  "invalid_number_of_arguments =
     ''Invalid number of arguments.'' @ [CHR 0x0A]
       @ ''Type '' @ [CHR 0x27] @ ''help'' @ [CHR 0x27]
       @ '' to see available commands.''"

definition input_error :: "(string \<Rightarrow> 'a) \<Rightarrow> error + 'a \<Rightarrow> error + 'a" where
  "input_error ret r =
     (case r of
        Inl (ValueError msg) \<Rightarrow> Inr (ret give_me_correct_values)
      | Inl IndexError \<Rightarrow> Inr (ret invalid_number_of_arguments)
      | _ \<Rightarrow> r)"

definition add_record :: "AddressBook \<Rightarrow> string list \<Rightarrow> error + (pyval \<times> AddressBook)" where
  "add_record self args =
     input_error (\<lambda>msg. (PyStr msg, self))
       (case subscript args 0 of
          Inl e \<Rightarrow> Inl e
        | Inr a0 \<Rightarrow>
            (case subscript args 1 of
               Inl e \<Rightarrow> Inl e
             | Inr a1 \<Rightarrow>
                 (case add_phone (Record_init a0) a1 of
                    Inl e \<Rightarrow> Inl e
                  | Inr rec \<Rightarrow>
                      Inr (PyStr (''Contact '' @ name rec @ '' was added.''),
                           dict_set self (name rec) rec))))"

text \<open>\<open>find\<close>: \<open>self.data.get(name, "Contact not found")\<close>, a record or the string.\<close>

definition AddressBook_find :: "AddressBook \<Rightarrow> string \<Rightarrow> pyval" where
  "AddressBook_find self n =
     (case map_of self n of
        Some rec \<Rightarrow> PyRecord rec
      | None \<Rightarrow> PyStr ''Contact not found'')"

definition delete :: "AddressBook \<Rightarrow> string \<Rightarrow> error + AddressBook" where
  "delete self n =
     (case map_of self n of
        None \<Rightarrow> Inl (KeyError n)
      | Some rec \<Rightarrow> Inr (filter (\<lambda>kv. fst kv \<noteq> n) self))"

text \<open>
  \<open>get_upcoming_birthdays\<close>, with the value of \<open>datetime.now()\<close> as the argument
  \<open>today\<close>. The loop body reads \<open>user.birthday.value\<close>: on a record whose \<open>birthday\<close>
  is \<open>None\<close> that is an \<open>AttributeError\<close>. An exception in the body ends the loop and
  the method. Each dictionary of the result is the association list of its two keys.
  \<open>loop_body\<close> is one turn of the loop for \<open>user\<close>: an exception, nothing to append
  (\<open>None\<close>), or the dictionary to append; \<open>upcoming_loop\<close> is the loop with the list
  \<open>upcoming_birthdays\<close> built so far.
\<close>

definition loop_body ::
  "datetime \<Rightarrow> Record \<Rightarrow> error + (string \<times> string) list option" where
  "loop_body today user =
     (case birthday user of
        None \<Rightarrow> Inl (AttributeError ''value'')
      | Some b \<Rightarrow>
          (case strptime_Ymd (code_points (str_nat (year (date_part today)) @ ''.''
                  @ str_nat (month b) @ ''.'' @ str_nat (day b))) of
             Inl e \<Rightarrow> Inl e
           | Inr birthday_this_year \<Rightarrow>
               (let difference = timedelta_days (midnight birthday_this_year) today
                in if 0 \<le> difference \<and> difference \<le> 7 then
                     (case (if weekday birthday_this_year \<ge> 5
                            then date_add_days birthday_this_year
                                   (7 - weekday birthday_this_year)
                            else Inr birthday_this_year) of
                        Inl e \<Rightarrow> Inl e
                      | Inr shifted \<Rightarrow>
                          Inr (Some [(''name'', name user),
                                     (''congratulation_date'', strftime_Ymd shifted)]))
                   else Inr None)))"

fun upcoming_loop ::
  "datetime \<Rightarrow> Record list \<Rightarrow> (string \<times> string) list list
     \<Rightarrow> error + (string \<times> string) list list" where
  "upcoming_loop today [] upcoming_birthdays = Inr upcoming_birthdays"
| "upcoming_loop today (user # users) upcoming_birthdays =
     (case loop_body today user of
        Inl e \<Rightarrow> Inl e
      | Inr None \<Rightarrow> upcoming_loop today users upcoming_birthdays
      | Inr (Some entry) \<Rightarrow> upcoming_loop today users (upcoming_birthdays @ [entry]))"

definition get_upcoming_birthdays ::
  "datetime \<Rightarrow> AddressBook \<Rightarrow> error + (string \<times> string) list list" where
  "get_upcoming_birthdays today self = upcoming_loop today (dict_values self) []"

text \<open>
  Two notions the properties below are stated with: this year's occurrence of a
  birthday (its month and day in the year of \<open>today\<close>), and a book whose stored
  birthdays are all dates of the calendar, as \<open>Birthday\<close> makes them.
\<close>

definition occurrence :: "datetime \<Rightarrow> date \<Rightarrow> date" where
  "occurrence today b = \<lparr>year = year (date_part today), month = month b, day = day b\<rparr>"

definition birthdays_valid :: "AddressBook \<Rightarrow> bool" where
  "birthdays_valid book =
     list_all (\<lambda>r. case birthday r of None \<Rightarrow> True | Some b \<Rightarrow> valid_date b)
       (dict_values book)"

definition change_record :: "AddressBook \<Rightarrow> string list \<Rightarrow> error + (pyval \<times> AddressBook)" where
  "change_record self args =
     input_error (\<lambda>msg. (PyStr msg, self))
       (case unpack3 args of
          Inl e \<Rightarrow> Inl e
        | Inr (n, old_phone, new_phone) \<Rightarrow>
            (case AddressBook_find self n of
               PyRecord rec \<Rightarrow>
                 (case edit_phone rec old_phone new_phone of
                    Inl e \<Rightarrow> Inl e
                  | Inr rec' \<Rightarrow>
                      Inr (PyStr (''Phone number '' @ old_phone @ '' was changed to ''
                                    @ new_phone @ '' for contact '' @ n @ ''.''),
                           dict_set self n rec'))
             | other \<Rightarrow> Inr (other, self)))"

definition add_birthday :: "AddressBook \<Rightarrow> string list \<Rightarrow> error + (pyval \<times> AddressBook)" where
  "add_birthday self args =
     input_error (\<lambda>msg. (PyStr msg, self))
       (case unpack2 args of
          Inl e \<Rightarrow> Inl e
        | Inr (n, b) \<Rightarrow>
            (case AddressBook_find self n of
               PyRecord rec \<Rightarrow>
                 (case Record_add_birthday rec b of
                    Inl e \<Rightarrow> Inl e
                  | Inr rec' \<Rightarrow>
                      Inr (PyStr (''Birthday '' @ b @ '' was added to contact '' @ n @ ''.''),
                           dict_set self n rec'))
             | other \<Rightarrow> Inr (other, self)))"

text \<open>
  \<open>show_birthday\<close> reads \<open>record.birthday\<close> on whatever \<open>find\<close> returned: on the string
  of a missing contact that is an \<open>AttributeError\<close>, which \<open>input_error\<close> does not catch.
\<close>

definition show_birthday :: "AddressBook \<Rightarrow> string list \<Rightarrow> error + pyval" where
  "show_birthday self args =
     input_error PyStr
       (case subscript args 0 of
          Inl e \<Rightarrow> Inl e
        | Inr n \<Rightarrow>
            (case AddressBook_find self n of
               PyRecord rec \<Rightarrow>
                 Inr (case birthday rec of None \<Rightarrow> PyNone | Some b \<Rightarrow> PyBirthday b)
             | other \<Rightarrow> Inl (AttributeError ''birthday'')))"

fun join_lines :: "string list \<Rightarrow> string" where
  "join_lines [] = []"
| "join_lines [x] = x"
| "join_lines (x # y # rest) = x @ [CHR 0x0A] @ join_lines (y # rest)"

definition birthdays :: "datetime \<Rightarrow> AddressBook \<Rightarrow> error + string" where
  "birthdays today self =
     input_error (\<lambda>msg. msg)
       (case get_upcoming_birthdays today self of
          Inl e \<Rightarrow> Inl e
        | Inr upcoming_birthdays \<Rightarrow>
            Inr (if upcoming_birthdays = [] then ''No upcoming birthdays.''
                 else join_lines
                        (map (\<lambda>data. the (map_of data ''name'') @ '' - ''
                                       @ the (map_of data ''congratulation_date''))
                           upcoming_birthdays)))"

text \<open>
  The clock readings of the examples below: Monday 2024-06-10 at noon, and Monday
  2023-02-27 at noon (2023 is not a leap year).
\<close>

definition monday_noon :: datetime where
  "monday_noon =
     \<lparr>date_part = \<lparr>year = 2024, month = 6, day = 10\<rparr>,
      hour = 12, minute = 0, second = 0, microsecond = 0\<rparr>"

definition february_noon :: datetime where
  "february_noon =
     \<lparr>date_part = \<lparr>year = 2023, month = 2, day = 27\<rparr>,
      hour = 12, minute = 0, second = 0, microsecond = 0\<rparr>"

definition contact :: "string \<Rightarrow> date option \<Rightarrow> string \<times> Record" where
  "contact n b = (n, \<lparr>name = n, phones = [''0501234567''], birthday = b\<rparr>)"

section \<open>Properties of Record\<close>

lemma remove_phone_loop_absent:
  "phone \<notin> set ps \<Longrightarrow> remove_phone_loop ps phone = ps"
  by (induction ps) auto

lemma remove_phone_loop_first:
  "phone \<notin> set before \<Longrightarrow> remove_phone_loop (before @ phone # after) phone = before @ after"
  by (induction before) auto

text \<open>
  C10. \<open>remove_phone\<close> always ends normally. When the phones are \<open>before @ phone # after\<close>
  with no \<open>phone\<close> in \<open>before\<close>, the result has the phones \<open>before @ after\<close>: only the
  first match is deleted, every other phone (later duplicates in \<open>after\<close> too) stays in
  place, and name and birthday are unchanged. When no phone equals \<open>phone\<close> the record
  is returned unchanged.
\<close>

theorem remove_phone_first_match_only:
  "(phone \<notin> set before \<longrightarrow>
      remove_phone \<lparr>name = n, phones = before @ phone # after, birthday = b\<rparr> phone
        = Inr \<lparr>name = n, phones = before @ after, birthday = b\<rparr>)
   \<and> (phone \<notin> set (phones r) \<longrightarrow> remove_phone r phone = Inr r)
   \<and> (\<exists>r'. remove_phone r phone = Inr r' \<and> name r' = name r \<and> birthday r' = birthday r)"
  by (simp add: remove_phone_def remove_phone_loop_absent remove_phone_loop_first)

theorem remove_phone_first_match_only_witness:
  "''222'' \<notin> set [''111'']
   \<and> remove_phone \<lparr>name = ''Ann'', phones = [''111'', ''222'', ''333'', ''222''], birthday = None\<rparr> ''222''
        = Inr \<lparr>name = ''Ann'', phones = [''111'', ''333'', ''222''], birthday = None\<rparr>
   \<and> ''999'' \<notin> set [''111'', ''222'']
   \<and> remove_phone \<lparr>name = ''Ann'', phones = [''111'', ''222''], birthday = None\<rparr> ''999''
        = Inr \<lparr>name = ''Ann'', phones = [''111'', ''222''], birthday = None\<rparr>"
  using remove_phone_first_match_only
    [of "''222''" "[''111'']" "''Ann''" "[''333'', ''222'']" None]
    remove_phone_first_match_only
    [of "''999''" "[]" "''Ann''" "[]" None
        "\<lparr>name = ''Ann'', phones = [''111'', ''222''], birthday = None\<rparr>"]
  by simp

lemma edit_phone_loop_absent:
  "old_phone \<notin> set ps \<Longrightarrow> edit_phone_loop ps old_phone new_phone = ps"
  by (induction ps) auto

lemma edit_phone_loop_first:
  "old_phone \<notin> set before \<Longrightarrow>
     edit_phone_loop (before @ old_phone # after) old_phone new_phone
       = before @ new_phone # after"
  by (induction before) auto

lemma edit_phone_loop_valid:
  "list_all Phone_validate ps \<Longrightarrow> Phone_validate new_phone \<Longrightarrow>
     list_all Phone_validate (edit_phone_loop ps old_phone new_phone)"
  by (induction ps) auto

text \<open>
  C5, as the code has it. \<open>edit_phone\<close> never signals a missing phone: with no phone
  equal to \<open>0000000000\<close> the call ends normally with the record unchanged, exactly as
  a call that did replace a phone ends normally.
\<close>

theorem edit_phone_not_found_counterexample:
  "find_phone \<lparr>name = ''Ann'', phones = [''1234567890''], birthday = None\<rparr> ''0000000000'' = None
   \<and> edit_phone \<lparr>name = ''Ann'', phones = [''1234567890''], birthday = None\<rparr>
         ''0000000000'' ''1111111111''
       = Inr \<lparr>name = ''Ann'', phones = [''1234567890''], birthday = None\<rparr>
   \<and> edit_phone \<lparr>name = ''Ann'', phones = [''1234567890''], birthday = None\<rparr>
         ''1234567890'' ''1111111111''
       = Inr \<lparr>name = ''Ann'', phones = [''1111111111''], birthday = None\<rparr>"
  by (simp add: find_phone_def edit_phone_def)

text \<open>
  C5, amended. For a \<open>new_phone\<close> that passes \<open>Phone_validate\<close>: \<open>edit_phone\<close> replaces
  the first phone equal to \<open>old_phone\<close> by \<open>new_phone\<close> and leaves the other phones, the
  name and the birthday as they were; when no phone equals \<open>old_phone\<close> the record is
  unchanged; a record whose phones were all valid keeps only valid phones; and on
  every path the call ends normally, with no not-found signal and no exception.
\<close>

theorem edit_phone_replaces_first_match:
  assumes "Phone_validate new_phone"
  shows "(old_phone \<notin> set before \<longrightarrow>
           edit_phone \<lparr>name = n, phones = before @ old_phone # after, birthday = b\<rparr>
               old_phone new_phone
             = Inr \<lparr>name = n, phones = before @ new_phone # after, birthday = b\<rparr>)
         \<and> (old_phone \<notin> set (phones r) \<longrightarrow> edit_phone r old_phone new_phone = Inr r)
         \<and> (\<exists>r'. edit_phone r old_phone new_phone = Inr r'
                \<and> name r' = name r \<and> birthday r' = birthday r
                \<and> (list_all Phone_validate (phones r) \<longrightarrow>
                       list_all Phone_validate (phones r')))"
  using assms
  by (simp add: edit_phone_def edit_phone_loop_absent edit_phone_loop_first
      edit_phone_loop_valid)

lemma Phone_validate_1111111111: "Phone_validate ''1111111111''"
  by (simp add: Phone_validate_def isdigit_def isdigit_char_def)

theorem edit_phone_replaces_first_match_witness:
  "Phone_validate ''1111111111''
   \<and> ''222'' \<notin> set [''111'']
   \<and> edit_phone \<lparr>name = ''Ann'', phones = [''111'', ''222'', ''333'', ''222''], birthday = None\<rparr>
         ''222'' ''1111111111''
       = Inr \<lparr>name = ''Ann'', phones = [''111'', ''1111111111'', ''333'', ''222''],
               birthday = None\<rparr>
   \<and> ''999'' \<notin> set [''111'', ''222'']
   \<and> edit_phone \<lparr>name = ''Ann'', phones = [''111'', ''222''], birthday = None\<rparr>
         ''999'' ''1111111111''
       = Inr \<lparr>name = ''Ann'', phones = [''111'', ''222''], birthday = None\<rparr>"
  using edit_phone_replaces_first_match
    [OF Phone_validate_1111111111, of "''222''" "[''111'']" "''Ann''" "[''333'', ''222'']" None]
    edit_phone_replaces_first_match
    [OF Phone_validate_1111111111, of "''999''" "[]" "''Ann''" "[]" None
        "\<lparr>name = ''Ann'', phones = [''111'', ''222''], birthday = None\<rparr>"]
    Phone_validate_1111111111
  by simp

section \<open>Properties of Phone\<close>

lemma ascii_digit_isdigit_char: "ascii_digit c \<Longrightarrow> isdigit_char c"
  by (simp add: ascii_digit_def isdigit_char_def)

lemma list_all_ascii_isdigit: "list_all ascii_digit s \<Longrightarrow> list_all isdigit_char s"
  by (induction s) (auto simp: ascii_digit_isdigit_char)

text \<open>
  C6, as the code has it. The ten characters \<open>123456789\<close> followed by superscript two
  (U+00B2) are not ten ASCII digits, and \<open>Phone\<close> accepts them.
\<close>

theorem Phone_superscript_counterexample:
  "Phone (''123456789'' @ [CHR 0xB2])
     = Inr (''123456789'' @ [CHR 0xB2])
   \<and> \<not> list_all ascii_digit (''123456789'' @ [CHR 0xB2])"
  by (simp add: Phone_def Phone_validate_def isdigit_def isdigit_char_def ascii_digit_def)

text \<open>
  C6, amended. \<open>Phone\<close> succeeds exactly on the strings of ten characters that
  \<open>str.isdigit\<close> accepts (the ASCII digits and the other Unicode digits, such as the
  superscripts), and then holds the string unchanged; every other string raises the
  \<open>ValueError\<close> of the phone format; ten ASCII digits always succeed.
\<close>

theorem Phone_accepts_ten_isdigit:
  "(Phone raw = Inr v \<longleftrightarrow> v = raw \<and> length raw = 10 \<and> list_all isdigit_char raw)
   \<and> (\<not> (length raw = 10 \<and> list_all isdigit_char raw) \<longrightarrow>
         Phone raw = Inl (ValueError ''Phone number must contain 10 digits''))
   \<and> (length raw = 10 \<and> list_all ascii_digit raw \<longrightarrow> Phone raw = Inr raw)"
  by (auto simp: Phone_def Phone_validate_def isdigit_def list_all_ascii_isdigit)

theorem Phone_accepts_ten_isdigit_witness:
  "Phone ''0501234567'' = Inr ''0501234567''
   \<and> Phone ''050-123-45'' = Inl (ValueError ''Phone number must contain 10 digits'')
   \<and> Phone ''12345'' = Inl (ValueError ''Phone number must contain 10 digits'')"
  using Phone_accepts_ten_isdigit [of "''0501234567''" "''0501234567''"]
    Phone_accepts_ten_isdigit [of "''050-123-45''"]
    Phone_accepts_ten_isdigit [of "''12345''"]
  by (simp add: isdigit_char_def ascii_digit_def)

section \<open>Properties of the calendar\<close>

lemma days_before_year_next:
  assumes "1 \<le> y"
  shows "days_before_year (y + 1) = days_before_year y + (if is_leap y then 366 else 365)"
proof -
  obtain z where z: "y = Suc z" using assms by (cases y) auto
  define a where "a = z div 4"
  define b where "b = z div 400"
  define c where "c = z div 100"
  have le: "c \<le> a" unfolding a_def c_def by (rule div_le_mono2) simp_all
  have i1: "Suc z mod 100 = 0 \<Longrightarrow> Suc z mod 4 = 0"
    using dvd_trans [of 4 100 "Suc z"] by (simp add: mod_eq_0_iff_dvd)
  have i2: "Suc z mod 400 = 0 \<Longrightarrow> Suc z mod 100 = 0"
    using dvd_trans [of 100 400 "Suc z"] by (simp add: mod_eq_0_iff_dvd)
  have e4: "Suc z div 4 = (if Suc z mod 4 = 0 then Suc a else a)"
    by (simp add: a_def div_Suc)
  have e100: "Suc z div 100 = (if Suc z mod 100 = 0 then Suc c else c)"
    by (simp add: c_def div_Suc)
  have e400: "Suc z div 400 = (if Suc z mod 400 = 0 then Suc b else b)"
    by (simp add: b_def div_Suc)
  have L: "days_before_year (Suc z + 1) = Suc z * 365 + Suc z div 4 - Suc z div 100 + Suc z div 400"
    by (simp add: days_before_year_def)
  have R: "days_before_year (Suc z) = z * 365 + a - c + b"
    by (simp add: days_before_year_def a_def b_def c_def)
  show ?thesis
    unfolding z L R e4 e100 e400 is_leap_def
    using le i1 i2 by auto
qed

lemma weekday_shift_monday:
  assumes "5 \<le> (o1 + 6) mod 7"
  shows "(o1 + (7 - (o1 + 6) mod 7) + 6) mod 7 = (0::nat)"
proof -
  define q where "q = (o1 + 6) div 7"
  define w where "w = (o1 + 6) mod 7"
  have w: "w < 7" unfolding w_def by simp
  have "o1 + 6 = 7 * q + w" unfolding q_def w_def by simp
  then have "o1 + (7 - w) + 6 = 7 * (q + 1)"
    using w by arith
  then show ?thesis unfolding w_def [symmetric] by simp
qed

lemma month_cases:
  "1 \<le> (m::nat) \<Longrightarrow> m \<le> 12 \<Longrightarrow>
     m = 1 \<or> m = 2 \<or> m = 3 \<or> m = 4 \<or> m = 5 \<or> m = 6 \<or> m = 7 \<or> m = 8 \<or> m = 9 \<or> m = 10 \<or> m = 11 \<or> m = 12"
  by arith

lemma toordinal_next_day:
  assumes "valid_date d"
  shows "toordinal (next_day d) = toordinal d + 1"
proof -
  from assms have y: "1 \<le> year d" and m: "1 \<le> month d" "month d \<le> 12"
    and dd: "1 \<le> day d" "day d \<le> days_in_month (year d) (month d)"
    by (simp_all add: valid_date_def)
  from month_cases [OF m] show ?thesis
    using dd days_before_year_next [OF y]
    by (elim disjE) (simp_all add: next_day_def toordinal_def days_before_month_def days_in_month_def)
qed

lemma valid_next_day:
  assumes "valid_date d"
  shows "valid_date (next_day d)"
proof -
  from assms have y: "1 \<le> year d" and m: "1 \<le> month d" "month d \<le> 12"
    and dd: "1 \<le> day d" "day d \<le> days_in_month (year d) (month d)"
    by (simp_all add: valid_date_def)
  from month_cases [OF m] show ?thesis
    using dd y
    by (elim disjE) (simp_all add: next_day_def valid_date_def days_in_month_def)
qed

lemma valid_next_days: "valid_date d \<Longrightarrow> valid_date ((next_day ^^ k) d)"
  by (induction k) (simp_all add: valid_next_day)

lemma toordinal_next_days: "valid_date d \<Longrightarrow> toordinal ((next_day ^^ k) d) = toordinal d + k"
  by (induction k) (simp_all add: valid_next_days toordinal_next_day)

section \<open>Properties of formatting and parsing\<close>

lemma digit_cases:
  "(k::nat) < 10 \<Longrightarrow>
     k = 0 \<or> k = 1 \<or> k = 2 \<or> k = 3 \<or> k = 4 \<or> k = 5 \<or> k = 6 \<or> k = 7 \<or> k = 8 \<or> k = 9"
  by arith

lemma of_char_digit_char:
  assumes "k < 10"
  shows "(of_char (digit_char k) :: nat) = 48 + k"
  using digit_cases [OF assms] by (elim disjE) (simp_all add: digit_char_def)

lemma ascii_digit_digit_char: "k < 10 \<Longrightarrow> ascii_digit (digit_char k)"
  by (simp add: ascii_digit_def of_char_digit_char)

lemma code_points_Cons: "code_points (c # s) = of_char c # code_points s"
  by (simp add: code_points_def)

lemma decimal_value_ascii: "k < 10 \<Longrightarrow> decimal_value (48 + k) = Some k"
  by (simp add: decimal_value_def decimal_zeros_def)

lemma decimal_value_simps:
  "decimal_value 48 = Some 0" "decimal_value 49 = Some 1" "decimal_value 50 = Some 2"
  "decimal_value 51 = Some 3" "decimal_value 52 = Some 4" "decimal_value 53 = Some 5"
  "decimal_value 54 = Some 6" "decimal_value 55 = Some 7" "decimal_value 56 = Some 8"
  "decimal_value 57 = Some 9" "decimal_value 46 = None" "decimal_value 32 = None"
  by (simp_all add: decimal_value_def decimal_zeros_def)

lemma decimal_zeros_ge: "list_all (\<lambda>z. 48 \<le> z) decimal_zeros"
  by (simp add: decimal_zeros_def)

lemma decimal_value_Some:
  assumes "decimal_value c = Some v"
  shows "v < 10" and "48 \<le> c"
proof -
  from assms obtain z where
    f: "find (\<lambda>z. z \<le> c \<and> c \<le> z + 9) decimal_zeros = Some z" and v: "v = c - z"
    by (auto simp: decimal_value_def)
  from f obtain i where i: "i < length decimal_zeros" "z = decimal_zeros ! i"
    and z: "z \<le> c" "c \<le> z + 9"
    unfolding find_Some_iff by blast
  from i have "z \<in> set decimal_zeros" by simp
  with decimal_zeros_ge have "48 \<le> z" by (simp add: list_all_iff)
  with z show "48 \<le> c" by simp
  from z v show "v < 10" by simp
qed

lemma re_class_Nil: "re_class lo hi [] = []"
  by (simp add: re_class_def)

lemma re_class_Cons:
  "re_class lo hi (c # r) = (if of_char lo \<le> c \<and> c \<le> of_char hi then [([c], r)] else [])"
  by (simp add: re_class_def)

lemma re_digit_Nil: "re_digit [] = []"
  by (simp add: re_digit_def)

lemma re_digit_Cons:
  "re_digit (c # r) = (if decimal_value c \<noteq> None then [([c], r)] else [])"
  by (simp add: re_digit_def)

lemma str_nat_1: "n < 10 \<Longrightarrow> str_nat n = [digit_char n]"
  by (simp add: str_nat.simps)

lemma str_nat_2:
  "10 \<le> n \<Longrightarrow> n < 100 \<Longrightarrow> str_nat n = [digit_char (n div 10), digit_char (n mod 10)]"
  by (subst str_nat.simps) (simp add: str_nat_1)

lemma str_nat_3:
  "100 \<le> n \<Longrightarrow> n < 1000 \<Longrightarrow>
     str_nat n = [digit_char (n div 10 div 10), digit_char (n div 10 mod 10), digit_char (n mod 10)]"
  by (subst str_nat.simps) (simp add: str_nat_2 del: div_mult2_eq)

lemma str_nat_4:
  "1000 \<le> n \<Longrightarrow> n < 10000 \<Longrightarrow>
     str_nat n = [digit_char (n div 10 div 10 div 10), digit_char (n div 10 div 10 mod 10),
                  digit_char (n div 10 mod 10), digit_char (n mod 10)]"
  by (subst str_nat.simps) (simp add: str_nat_3)

lemma decimal_4:
  assumes "(n::nat) < 10000"
  shows "n div 10 div 10 div 10 < 10"
    and "1000 * (n div 10 div 10 div 10) + 100 * (n div 10 div 10 mod 10)
           + 10 * (n div 10 mod 10) + n mod 10 = n"
proof -
  define q1 where "q1 = n div 10"
  define q2 where "q2 = q1 div 10"
  define q3 where "q3 = q2 div 10"
  define r1 where "r1 = n mod 10"
  define r2 where "r2 = q1 mod 10"
  define r3 where "r3 = q2 mod 10"
  have e1: "n = 10 * q1 + r1" by (simp add: q1_def r1_def)
  have e2: "q1 = 10 * q2 + r2" by (simp add: q2_def r2_def)
  have e3: "q2 = 10 * q3 + r3" by (simp add: q3_def r3_def)
  have "q3 < 10" using assms e1 e2 e3 by linarith
  then show "n div 10 div 10 div 10 < 10" by (simp add: q1_def q2_def q3_def)
  have "1000 * q3 + 100 * r3 + 10 * r2 + r1 = n" using e1 e2 e3 by linarith
  then show "1000 * (n div 10 div 10 div 10) + 100 * (n div 10 div 10 mod 10)
           + 10 * (n div 10 mod 10) + n mod 10 = n"
    by (simp add: q1_def q2_def q3_def r1_def r2_def r3_def)
qed

text \<open>The code points of \<open>str(n)\<close> for numbers of one to four digits.\<close>

lemma cp_str_nat_1: "n < 10 \<Longrightarrow> code_points (str_nat n) = [48 + n]"
  by (simp add: str_nat_1 code_points_def of_char_digit_char)

lemma cp_str_nat_2:
  assumes "10 \<le> n" "n < 100"
  shows "code_points (str_nat n) = [48 + n div 10, 48 + n mod 10]"
proof -
  have "n div 10 < 10" using assms(2) by simp
  then show ?thesis
    by (simp add: str_nat_2 [OF assms] code_points_def of_char_digit_char)
qed

lemma cp_str_nat_3:
  assumes "100 \<le> n" "n < 1000"
  shows "code_points (str_nat n) = [48 + n div 10 div 10, 48 + n div 10 mod 10, 48 + n mod 10]"
proof -
  have "n div 10 < 100" using assms(2) by simp
  then have "n div 10 div 10 < 10" by simp
  then show ?thesis
    by (simp add: str_nat_3 [OF assms] code_points_def of_char_digit_char)
qed

lemma cp_str_nat_4:
  assumes "1000 \<le> n" "n < 10000"
  shows "code_points (str_nat n)
           = [48 + n div 10 div 10 div 10, 48 + n div 10 div 10 mod 10,
              48 + n div 10 mod 10, 48 + n mod 10]"
  using decimal_4(1) [OF assms(2)]
  by (simp add: str_nat_4 [OF assms] code_points_def of_char_digit_char)

text \<open>\<open>int\<close> on groups of decimal digits.\<close>

lemma py_int_1: "decimal_value c = Some a \<Longrightarrow> py_int [c] = a"
  using decimal_value_Some(2) [of c a] by (simp add: py_int_def)

lemma py_int_2:
  "decimal_value c1 = Some a \<Longrightarrow> decimal_value c2 = Some b \<Longrightarrow> py_int [c1, c2] = 10 * a + b"
  using decimal_value_Some(2) [of c1 a] by (simp add: py_int_def)

lemma py_int_blank: "decimal_value c = Some a \<Longrightarrow> py_int [32, c] = a"
  using decimal_value_Some(2) [of c a] by (simp add: py_int_def)

lemma py_int_4:
  "decimal_value c1 = Some a \<Longrightarrow> decimal_value c2 = Some b \<Longrightarrow>
   decimal_value c3 = Some c \<Longrightarrow> decimal_value c4 = Some e \<Longrightarrow>
     py_int [c1, c2, c3, c4] = 1000 * a + 100 * b + 10 * c + e"
  using decimal_value_Some(2) [of c1 a] by (simp add: py_int_def)

lemma re_Y_digits:
  "decimal_value c1 = Some a \<Longrightarrow> decimal_value c2 = Some b \<Longrightarrow>
   decimal_value c3 = Some c \<Longrightarrow> decimal_value c4 = Some e \<Longrightarrow>
     re_Y (c1 # c2 # c3 # c4 # r) = [([c1, c2, c3, c4], r)]"
  by (simp add: re_Y_def re_seq_def re_digit_Cons)

lemma re_lit_dot: "re_lit CHR ''.'' (46 # r) = [([46], r)]"
  by (simp add: re_lit_def re_class_Cons)

lemma then_dot_Y:
  "decimal_value c1 = Some a \<Longrightarrow> decimal_value c2 = Some b \<Longrightarrow>
   decimal_value c3 = Some c \<Longrightarrow> decimal_value c4 = Some e \<Longrightarrow>
     then_dot re_Y (c1 # c2 # c3 # c4 # 46 # r) = [([c1, c2, c3, c4], r)]"
  by (simp add: then_dot_def re_Y_digits re_lit_dot)

lemmas re_simps =
  then_dot_def re_d_def re_m_def re_Y_def re_alt_def re_seq_def re_lit_def
  re_class_Cons re_class_Nil re_digit_Cons re_digit_Nil decimal_value_simps

lemma month_str_dot:
  assumes "1 \<le> m" "m \<le> 12"
  shows "then_dot re_m (code_points (str_nat m) @ 46 # r) = [(code_points (str_nat m), r)]
         \<and> py_int (code_points (str_nat m)) = m"
  using month_cases [OF assms]
  by (elim disjE)
     (simp_all add: str_nat.simps digit_char_def code_points_def re_simps py_int_def)

lemma day_cases:
  "1 \<le> (d::nat) \<Longrightarrow> d \<le> 31 \<Longrightarrow>
     d = 1 \<or> d = 2 \<or> d = 3 \<or> d = 4 \<or> d = 5 \<or> d = 6 \<or> d = 7 \<or> d = 8 \<or> d = 9 \<or> d = 10
     \<or> d = 11 \<or> d = 12 \<or> d = 13 \<or> d = 14 \<or> d = 15 \<or> d = 16 \<or> d = 17 \<or> d = 18 \<or> d = 19
     \<or> d = 20 \<or> d = 21 \<or> d = 22 \<or> d = 23 \<or> d = 24 \<or> d = 25 \<or> d = 26 \<or> d = 27 \<or> d = 28
     \<or> d = 29 \<or> d = 30 \<or> d = 31"
  by arith

lemma day_token_last:
  assumes "1 \<le> d" "d \<le> 31"
  shows "(\<exists>others. re_d (code_points (str_nat d)) = (code_points (str_nat d), []) # others)
         \<and> py_int (code_points (str_nat d)) = d"
  using day_cases [OF assms]
  by (elim disjE)
     (simp_all add: str_nat.simps digit_char_def code_points_def re_simps py_int_def)

lemma then_dot_Y_short:
  "then_dot re_Y (a # 46 # r) = []"
  "then_dot re_Y (a # b # 46 # r) = []"
  "then_dot re_Y (a # b # c # 46 # r) = []"
  by (simp_all add: then_dot_def re_Y_def re_seq_def re_digit_Cons decimal_value_simps)

lemma match_Ymd_short_year:
  assumes "y < 1000"
  shows "match_Ymd (code_points (str_nat y) @ 46 # r) = []"
proof -
  consider "y < 10" | "10 \<le> y" "y < 100" | "100 \<le> y" "y < 1000"
    using assms by linarith
  then show ?thesis
    by cases (simp_all add: match_Ymd_def cp_str_nat_1 cp_str_nat_2 cp_str_nat_3 then_dot_Y_short)
qed

lemma cp_occurrence_text:
  "code_points (str_nat y @ ''.'' @ str_nat m @ ''.'' @ str_nat d)
     = code_points (str_nat y) @ 46 # code_points (str_nat m) @ 46 # code_points (str_nat d)"
  by (simp add: code_points_def)

lemma match_Ymd_occurrence:
  assumes "1000 \<le> y" "y < 10000" "1 \<le> m" "m \<le> 12" "1 \<le> d" "d \<le> 31"
  shows "\<exists>others. match_Ymd (code_points (str_nat y @ ''.'' @ str_nat m @ ''.'' @ str_nat d))
            = (code_points (str_nat d), code_points (str_nat m), code_points (str_nat y), [])
                # others"
proof -
  obtain others where
    d: "re_d (code_points (str_nat d)) = (code_points (str_nat d), []) # others"
    using day_token_last [OF assms(5,6)] by blast
  have m: "then_dot re_m (code_points (str_nat m) @ 46 # code_points (str_nat d))
             = [(code_points (str_nat m), code_points (str_nat d))]"
    using month_str_dot [OF assms(3,4)] by blast
  have y: "then_dot re_Y
             (code_points (str_nat y) @ 46 # code_points (str_nat m) @ 46 # code_points (str_nat d))
             = [(code_points (str_nat y), code_points (str_nat m) @ 46 # code_points (str_nat d))]"
    using decimal_4(1) [OF assms(2)]
    by (simp add: cp_str_nat_4 [OF assms(1,2)] then_dot_Y decimal_value_ascii)
  show ?thesis
    unfolding cp_occurrence_text by (simp add: match_Ymd_def y m d)
qed

lemma py_int_year:
  assumes "1000 \<le> y" "y < 10000"
  shows "py_int (code_points (str_nat y)) = y"
proof -
  have "py_int (code_points (str_nat y))
          = 1000 * (y div 10 div 10 div 10) + 100 * (y div 10 div 10 mod 10)
              + 10 * (y div 10 mod 10) + y mod 10"
    unfolding cp_str_nat_4 [OF assms]
    using decimal_4(1) [OF assms(2)]
    by (intro py_int_4 decimal_value_ascii) simp_all
  with decimal_4(2) [OF assms(2)] show ?thesis by simp
qed

lemma strptime_Ymd_occurrence:
  assumes "y \<le> 9999" "1 \<le> m" "m \<le> 12" "1 \<le> d" "d \<le> 31"
  shows "strptime_Ymd (code_points (str_nat y @ ''.'' @ str_nat m @ ''.'' @ str_nat d))
           = (if 1000 \<le> y then datetime_date y m d
              else Inl (ValueError ''time data does not match format''))"
proof (cases "1000 \<le> y")
  case True
  then have y: "1000 \<le> y" "y < 10000" using assms(1) by simp_all
  obtain others where
    "match_Ymd (code_points (str_nat y @ ''.'' @ str_nat m @ ''.'' @ str_nat d))
       = (code_points (str_nat d), code_points (str_nat m), code_points (str_nat y), [])
           # others"
    using match_Ymd_occurrence [OF y assms(2-5)] by blast
  then show ?thesis
    using True month_str_dot [OF assms(2,3)] day_token_last [OF assms(4,5)] py_int_year [OF y]
    by (simp add: strptime_Ymd_def strptime_found_def)
next
  case False
  then have "y < 1000" by simp
  then show ?thesis
    unfolding cp_occurrence_text
    using False
      match_Ymd_short_year [of y "code_points (str_nat m) @ 46 # code_points (str_nat d)"]
    by (simp add: strptime_Ymd_def strptime_found_def)
qed

lemma days_in_month_le_31: "1 \<le> m \<Longrightarrow> m \<le> 12 \<Longrightarrow> days_in_month y m \<le> 31"
  using month_cases [of m] by (auto simp: days_in_month_def)

lemma zero_pad2_digits:
  "n < 100 \<Longrightarrow> zero_pad2 n = [digit_char (n div 10), digit_char (n mod 10)]"
  by (cases "n < 10") (simp_all add: zero_pad2_def str_nat_1 str_nat_2 digit_char_def)

lemma strftime_Ymd_shape:
  assumes "valid_date d" "1000 \<le> year d" "year d \<le> 9999"
  shows "is_YYYY_MM_DD (strftime_Ymd d)"
proof -
  have m: "month d < 100" using assms(1) by (simp add: valid_date_def)
  have "day d \<le> 31"
    using assms(1) days_in_month_le_31 [of "month d" "year d"] by (simp add: valid_date_def)
  then have dd: "day d < 100" by simp
  have y: "year d < 10000" using assms(3) by simp
  have m10: "month d div 10 < 10" using m by simp
  have d10: "day d div 10 < 10" using dd by simp
  show ?thesis
    using decimal_4(1) [OF y] m10 d10
    by (simp add: strftime_Ymd_def str_nat_4 [OF assms(2) y] zero_pad2_digits [OF m]
        zero_pad2_digits [OF dd] is_YYYY_MM_DD_def ascii_digit_digit_char)
qed

lemma days_before_year_mono: "1 \<le> y \<Longrightarrow> days_before_year y \<le> days_before_year (y + k)"
proof (induction k)
  case 0
  then show ?case by simp
next
  case (Suc k)
  have "days_before_year (y + k + 1) = days_before_year (y + k) + (if is_leap (y + k) then 366 else 365)"
    using Suc.prems by (intro days_before_year_next) simp
  then show ?case using Suc by (simp split: if_splits)
qed

lemma days_before_year_10000: "days_before_year 10000 = 3652059"
  by (simp add: days_before_year_def)

lemma year_le_9999:
  assumes "valid_date d" "toordinal d \<le> 3652059"
  shows "year d \<le> 9999"
proof (rule ccontr)
  assume "\<not> year d \<le> 9999"
  then obtain k where k: "year d = 10000 + k"
    using le_Suc_ex [of 10000 "year d"] by auto
  have "days_before_year 10000 \<le> days_before_year (10000 + k)"
    by (rule days_before_year_mono) simp
  moreover have "1 \<le> day d" using assms(1) by (simp add: valid_date_def)
  ultimately show False
    using assms(2) by (simp add: toordinal_def k days_before_year_10000)
qed

lemma year_next_day: "year d \<le> year (next_day d)"
  by (simp add: next_day_def)

lemma year_next_days: "year d \<le> year ((next_day ^^ k) d)"
proof (induction k)
  case 0
  then show ?case by simp
next
  case (Suc k)
  then show ?case using year_next_day [of "(next_day ^^ k) d"] by simp
qed

lemma datetime_date_Inr:
  "datetime_date y m d = Inr x \<Longrightarrow>
     x = \<lparr>year = y, month = m, day = d\<rparr> \<and> valid_date x \<and> y \<le> 9999"
  by (auto simp: datetime_date_def valid_date_def split: if_splits)

section \<open>Properties of the upcoming birthdays\<close>

lemma upcoming_loop_entries:
  assumes "upcoming_loop today users acc = Inr ups" "e \<in> set ups"
  shows "e \<in> set acc \<or> (\<exists>user \<in> set users. loop_body today user = Inr (Some e))"
  using assms
proof (induction users arbitrary: acc)
  case Nil
  then show ?case by simp
next
  case (Cons user users)
  show ?case
  proof (cases "loop_body today user")
    case (Inl err)
    with Cons.prems(1) show ?thesis by simp
  next
    case (Inr res)
    show ?thesis
    proof (cases res)
      case None
      with Inr Cons.prems(1) have "upcoming_loop today users acc = Inr ups" by simp
      from Cons.IH [OF this Cons.prems(2)] show ?thesis by auto
    next
      case (Some entry)
      with Inr Cons.prems(1) have "upcoming_loop today users (acc @ [entry]) = Inr ups" by simp
      from Cons.IH [OF this Cons.prems(2)] show ?thesis using Inr Some by auto
    qed
  qed
qed

lemma loop_body_Some:
  assumes "loop_body today user = Inr (Some e)"
  shows "\<exists>b occ shown.
            birthday user = Some b
            \<and> strptime_Ymd (code_points (str_nat (year (date_part today)) @ ''.''
                  @ str_nat (month b) @ ''.'' @ str_nat (day b))) = Inr occ
            \<and> 0 \<le> timedelta_days (midnight occ) today
            \<and> timedelta_days (midnight occ) today \<le> 7
            \<and> (if 5 \<le> weekday occ then date_add_days occ (7 - weekday occ) else Inr occ)
                  = Inr shown
            \<and> e = [(''name'', name user), (''congratulation_date'', strftime_Ymd shown)]"
proof -
  from assms obtain b where b: "birthday user = Some b"
    by (cases "birthday user") (simp_all add: loop_body_def)
  from assms b obtain occ where
    occ: "strptime_Ymd (code_points (str_nat (year (date_part today)) @ ''.''
            @ str_nat (month b) @ ''.'' @ str_nat (day b))) = Inr occ"
    by (auto simp: loop_body_def split: sum.splits)
  from assms b occ have
    d: "0 \<le> timedelta_days (midnight occ) today" "timedelta_days (midnight occ) today \<le> 7"
    by (auto simp: loop_body_def Let_def split: if_splits)
  from assms b occ d obtain shown where
    "(if 5 \<le> weekday occ then date_add_days occ (7 - weekday occ) else Inr occ) = Inr shown"
    "e = [(''name'', name user), (''congratulation_date'', strftime_Ymd shown)]"
    by (cases "if 5 \<le> weekday occ then date_add_days occ (7 - weekday occ) else Inr occ")
       (auto simp: loop_body_def Let_def)
  with b occ d show ?thesis by blast
qed

lemma shift_to_monday:
  assumes v: "valid_date occ" and w: "5 \<le> weekday occ"
    and s: "date_add_days occ (7 - weekday occ) = Inr shown"
  shows "shown = (next_day ^^ (7 - weekday occ)) occ"
    and "toordinal shown = toordinal occ + (7 - weekday occ)"
    and "weekday shown = 0"
    and "valid_date shown"
    and "year shown \<le> 9999"
    and "year occ \<le> year shown"
proof -
  from s show sh: "shown = (next_day ^^ (7 - weekday occ)) occ"
    by (auto simp: date_add_days_def split: if_splits)
  from s have le: "toordinal occ + (7 - weekday occ) \<le> 3652059"
    by (auto simp: date_add_days_def split: if_splits)
  show t: "toordinal shown = toordinal occ + (7 - weekday occ)"
    unfolding sh by (rule toordinal_next_days [OF v])
  show vs: "valid_date shown" unfolding sh by (rule valid_next_days [OF v])
  show "weekday shown = 0"
    using weekday_shift_monday [of "toordinal occ"] w
    by (simp add: weekday_def t)
  show "year shown \<le> 9999" using year_le_9999 [OF vs] t le by simp
  show "year occ \<le> year shown" unfolding sh by (rule year_next_days)
qed

text \<open>
  C2. Let the scan return normally, on a book whose birthdays are dates of the
  calendar and a clock whose year is at most 9999. Every dictionary of the result
  belongs to a record of the book with a birthday \<open>b\<close>: it holds the record's name and
  the text \<open>strftime_Ymd shown\<close>, which has the shape \<open>YYYY.MM.DD\<close>. When this year's
  occurrence of \<open>b\<close> falls on weekday 5 or 6, \<open>shown\<close> is the occurrence moved forward
  by \<open>7 - weekday\<close> days and is a Monday; otherwise \<open>shown\<close> is the occurrence.
\<close>

theorem congratulation_date_weekend_shift:
  assumes "get_upcoming_birthdays today book = Inr ups"
    and "e \<in> set ups"
    and "birthdays_valid book"
    and "year (date_part today) \<le> 9999"
  shows "\<exists>user b shown.
           user \<in> set (dict_values book) \<and> birthday user = Some b
           \<and> e = [(''name'', name user), (''congratulation_date'', strftime_Ymd shown)]
           \<and> is_YYYY_MM_DD (strftime_Ymd shown)
           \<and> (if 5 \<le> weekday (occurrence today b)
               then shown = (next_day ^^ (7 - weekday (occurrence today b))) (occurrence today b)
                    \<and> toordinal shown
                        = toordinal (occurrence today b) + (7 - weekday (occurrence today b))
                    \<and> weekday shown = 0
               else shown = occurrence today b)"
proof -
  from upcoming_loop_entries [OF assms(1) [unfolded get_upcoming_birthdays_def] assms(2)]
  obtain user where u: "user \<in> set (dict_values book)"
    and lb: "loop_body today user = Inr (Some e)"
    by auto
  from loop_body_Some [OF lb] obtain b occ shown where
    u0: "user \<in> set (dict_values book)" and b: "birthday user = Some b"
    and occ: "strptime_Ymd (code_points (str_nat (year (date_part today)) @ ''.''
                @ str_nat (month b) @ ''.'' @ str_nat (day b))) = Inr occ"
    and sh: "(if 5 \<le> weekday occ then date_add_days occ (7 - weekday occ) else Inr occ)
               = Inr shown"
    and e: "e = [(''name'', name user), (''congratulation_date'', strftime_Ymd shown)]"
    using u by blast
  from assms(3) u b have vb: "valid_date b"
    by (auto simp: birthdays_valid_def list_all_iff)
  then have m: "1 \<le> month b" "month b \<le> 12" and d1: "1 \<le> day b"
    and "day b \<le> days_in_month (year b) (month b)"
    by (simp_all add: valid_date_def)
  then have d2: "day b \<le> 31"
    using days_in_month_le_31 [of "month b" "year b"] by simp
  from occ strptime_Ymd_occurrence [OF assms(4) m d1 d2]
  have y: "1000 \<le> year (date_part today)"
    and dd: "datetime_date (year (date_part today)) (month b) (day b) = Inr occ"
    by (auto split: if_splits)
  have o: "occ = occurrence today b"
    using datetime_date_Inr [OF dd] by (simp add: occurrence_def)
  have vo: "valid_date occ"
    using datetime_date_Inr [OF dd] by blast
  have yo: "year occ = year (date_part today)" by (simp add: o occurrence_def)
  show ?thesis
  proof (cases "5 \<le> weekday occ")
    case True
    with sh have "date_add_days occ (7 - weekday occ) = Inr shown" by simp
    note s = shift_to_monday [OF vo True this]
    have "is_YYYY_MM_DD (strftime_Ymd shown)"
      using s(4,5,6) y yo by (intro strftime_Ymd_shape) simp_all
    then show ?thesis using u b e s(1,2,3) True o by auto
  next
    case False
    with sh have s: "shown = occ" by simp
    have "is_YYYY_MM_DD (strftime_Ymd shown)"
      unfolding s using vo y yo assms(4) by (intro strftime_Ymd_shape) simp_all
    then show ?thesis using u b e s False o by auto
  qed
qed

lemmas eval_simps =
  get_upcoming_birthdays_def dict_values_def loop_body_def contact_def
  monday_noon_def february_noon_def code_points_def
  match_Ymd_def py_int_def strptime_found_def strptime_Ymd_def re_simps
  is_leap_def days_in_month_def days_before_year_def days_before_month_def
  toordinal_def weekday_def datetime_date_def
  str_nat.simps digit_char_def zero_pad2_def strftime_Ymd_def
  timedelta_days_def total_microseconds_def midnight_def
  date_add_days_def next_day_def occurrence_def

lemma next_day_twice: "(next_day ^^ 2) d = next_day (next_day d)"
  by (simp add: numeral_2_eq_2)

theorem congratulation_date_weekend_shift_witness:
  "get_upcoming_birthdays monday_noon
     [contact ''Anna'' (Some \<lparr>year = 1990, month = 6, day = 12\<rparr>),
      contact ''Ben'' (Some \<lparr>year = 1985, month = 6, day = 15\<rparr>)]
     = Inr [[(''name'', ''Anna''), (''congratulation_date'', ''2024.06.12'')],
            [(''name'', ''Ben''), (''congratulation_date'', ''2024.06.17'')]]
   \<and> (\<exists>user b shown.
         user \<in> set (dict_values
                    [contact ''Anna'' (Some \<lparr>year = 1990, month = 6, day = 12\<rparr>),
                     contact ''Ben'' (Some \<lparr>year = 1985, month = 6, day = 15\<rparr>)])
         \<and> birthday user = Some b
         \<and> [(''name'', ''Ben''), (''congratulation_date'', ''2024.06.17'')]
             = [(''name'', name user), (''congratulation_date'', strftime_Ymd shown)]
         \<and> is_YYYY_MM_DD (strftime_Ymd shown)
         \<and> (if 5 \<le> weekday (occurrence monday_noon b)
             then shown = (next_day ^^ (7 - weekday (occurrence monday_noon b)))
                            (occurrence monday_noon b)
                  \<and> toordinal shown
                      = toordinal (occurrence monday_noon b)
                          + (7 - weekday (occurrence monday_noon b))
                  \<and> weekday shown = 0
             else shown = occurrence monday_noon b))"
proof -
  let ?book = "[contact ''Anna'' (Some \<lparr>year = 1990, month = 6, day = 12\<rparr>),
                contact ''Ben'' (Some \<lparr>year = 1985, month = 6, day = 15\<rparr>)]"
  let ?ups = "[[(''name'', ''Anna''), (''congratulation_date'', ''2024.06.12'')],
               [(''name'', ''Ben''), (''congratulation_date'', ''2024.06.17'')]]"
  have h1: "get_upcoming_birthdays monday_noon ?book = Inr ?ups"
    by (simp add: eval_simps next_day_twice)
  have h2: "[(''name'', ''Ben''), (''congratulation_date'', ''2024.06.17'')] \<in> set ?ups"
    by simp
  have h3: "birthdays_valid ?book"
    by (simp add: birthdays_valid_def dict_values_def contact_def valid_date_def
        days_in_month_def is_leap_def)
  have h4: "year (date_part monday_noon) \<le> 9999"
    by (simp add: monday_noon_def)
  from congratulation_date_weekend_shift [OF h1 h2 h3 h4] h1 show ?thesis
    by blast
qed

text \<open>
  C1, on the code. With the clock at noon of 2024-06-10, a birthday on 10 June (zero
  calendar days ahead, which the claim includes) is left out, because
  \<open>(birthday_this_year - today).days\<close> is \<open>-1\<close> once the clock is past midnight; a
  birthday on 18 June (eight calendar days ahead, which the claim excludes) is
  returned.
\<close>

theorem upcoming_misses_today_takes_day_8:
  "get_upcoming_birthdays monday_noon
     [contact ''Ann'' (Some \<lparr>year = 1990, month = 6, day = 10\<rparr>),
      contact ''Zed'' (Some \<lparr>year = 1990, month = 6, day = 18\<rparr>)]
     = Inr [[(''name'', ''Zed''), (''congratulation_date'', ''2024.06.18'')]]
   \<and> int (toordinal (occurrence monday_noon \<lparr>year = 1990, month = 6, day = 10\<rparr>))
       - int (toordinal (date_part monday_noon)) = 0
   \<and> int (toordinal (occurrence monday_noon \<lparr>year = 1990, month = 6, day = 18\<rparr>))
       - int (toordinal (date_part monday_noon)) = 8"
  by (simp add: eval_simps)

text \<open>
  C3, on the code. A record without a birthday ends the scan with the
  \<open>AttributeError\<close> of \<open>user.birthday.value\<close>, and nothing is returned for the
  records after it. A birthday on 29 February ends the scan in 2023 with the
  \<open>ValueError\<close> of \<open>strptime\<close>, which \<open>birthdays\<close> turns into the message of
  \<open>input_error\<close>; the same book without that record has a result.
\<close>

theorem upcoming_aborts_on_missing_birthday:
  "get_upcoming_birthdays monday_noon
     [contact ''New'' None, contact ''Anna'' (Some \<lparr>year = 1990, month = 6, day = 12\<rparr>)]
     = Inl (AttributeError ''value'')
   \<and> get_upcoming_birthdays february_noon
     [contact ''Leap'' (Some \<lparr>year = 2000, month = 2, day = 29\<rparr>),
      contact ''Ben'' (Some \<lparr>year = 1990, month = 2, day = 28\<rparr>)]
     = Inl (ValueError ''day is out of range for month'')
   \<and> birthdays february_noon
     [contact ''Leap'' (Some \<lparr>year = 2000, month = 2, day = 29\<rparr>),
      contact ''Ben'' (Some \<lparr>year = 1990, month = 2, day = 28\<rparr>)]
     = Inr give_me_correct_values
   \<and> get_upcoming_birthdays february_noon
     [contact ''Ben'' (Some \<lparr>year = 1990, month = 2, day = 28\<rparr>)]
     = Inr [[(''name'', ''Ben''), (''congratulation_date'', ''2023.02.28'')]]"
  by (simp add: eval_simps birthdays_def input_error_def)

section \<open>Properties of the AddressBook\<close>

text \<open>
  C4, on the code. For a name that is not in the book \<open>show_birthday\<close> raises the
  \<open>AttributeError\<close> of \<open>record.birthday\<close> on the string that \<open>find\<close> returned; it does
  not return that string. The other two outcomes are returned: the stored birthday,
  and \<open>None\<close> for a contact without one.
\<close>

theorem show_birthday_raises_on_missing_contact:
  "show_birthday [contact ''Ann'' (Some \<lparr>year = 1990, month = 6, day = 12\<rparr>)] [''Bob'']
     = Inl (AttributeError ''birthday'')
   \<and> show_birthday [contact ''Ann'' (Some \<lparr>year = 1990, month = 6, day = 12\<rparr>)] [''Ann'']
     = Inr (PyBirthday \<lparr>year = 1990, month = 6, day = 12\<rparr>)
   \<and> show_birthday [contact ''Ann'' None] [''Ann''] = Inr PyNone"
  by (simp add: show_birthday_def subscript_def AddressBook_find_def input_error_def contact_def)

lemma map_of_dict_set: "map_of (dict_set book k v) = (map_of book)(k \<mapsto> v)"
  by (induction book k v rule: dict_set.induct) auto

lemma keys_dict_set:
  "map fst (dict_set book k v)
     = (if k \<in> set (map fst book) then map fst book else map fst book @ [k])"
  by (induction book k v rule: dict_set.induct) auto

lemma dict_set_same: "map_of book k = Some v \<Longrightarrow> dict_set book k v = book"
  by (induction book k v rule: dict_set.induct) (auto split: if_splits)

text \<open>
  C8. For a phone that passes \<open>Phone_validate\<close> and any name, \<open>add_record\<close> returns the
  message \<open>Contact <name> was added.\<close> and a book in which the name maps to a new
  record with that one phone and no birthday, whatever the name mapped to before;
  every other name maps to what it did, and the keys are the old ones, with the name
  added at the end when it is new.
\<close>

theorem add_record_overwrites:
  assumes "Phone_validate phone"
  shows "\<exists>book'. add_record book [n, phone]
                    = Inr (PyStr (''Contact '' @ n @ '' was added.''), book')
           \<and> map_of book' n = Some \<lparr>name = n, phones = [phone], birthday = None\<rparr>
           \<and> (\<forall>k. k \<noteq> n \<longrightarrow> map_of book' k = map_of book k)
           \<and> map fst book'
               = (if n \<in> set (map fst book) then map fst book else map fst book @ [n])"
  using assms
  by (simp add: add_record_def input_error_def subscript_def add_phone_def Phone_def
      Record_init_def map_of_dict_set keys_dict_set)

theorem add_record_overwrites_witness:
  "Phone_validate ''1111111111''
   \<and> add_record
        [(''Ann'', \<lparr>name = ''Ann'', phones = [''0501234567'', ''0509876543''],
                    birthday = Some \<lparr>year = 1990, month = 6, day = 12\<rparr>\<rparr>),
         (''Ben'', \<lparr>name = ''Ben'', phones = [''0671234567''], birthday = None\<rparr>)]
        [''Ann'', ''1111111111'']
      = Inr (PyStr ''Contact Ann was added.'',
             [(''Ann'', \<lparr>name = ''Ann'', phones = [''1111111111''], birthday = None\<rparr>),
              (''Ben'', \<lparr>name = ''Ben'', phones = [''0671234567''], birthday = None\<rparr>)])"
proof -
  let ?book = "[(''Ann'', \<lparr>name = ''Ann'', phones = [''0501234567'', ''0509876543''],
                    birthday = Some \<lparr>year = 1990, month = 6, day = 12\<rparr>\<rparr>),
         (''Ben'', \<lparr>name = ''Ben'', phones = [''0671234567''], birthday = None\<rparr>)]"
  from add_record_overwrites [OF Phone_validate_1111111111, of ?book "''Ann''"]
  obtain book' where
    r: "add_record ?book [''Ann'', ''1111111111'']
          = Inr (PyStr (''Contact '' @ ''Ann'' @ '' was added.''), book')"
    by blast
  have "add_record ?book [''Ann'', ''1111111111'']
      = Inr (PyStr ''Contact Ann was added.'',
             [(''Ann'', \<lparr>name = ''Ann'', phones = [''1111111111''], birthday = None\<rparr>),
              (''Ben'', \<lparr>name = ''Ben'', phones = [''0671234567''], birthday = None\<rparr>)])"
    using Phone_validate_1111111111
    by (simp add: add_record_def input_error_def subscript_def add_phone_def Phone_def
        Record_init_def)
  with r Phone_validate_1111111111 show ?thesis by simp
qed

text \<open>
  C9. For a name that is in the book, \<open>change_record\<close> returns the message
  \<open>Phone number <old> was changed to <new> for contact <name>.\<close> whether or not a
  phone of the contact equals \<open>old_phone\<close>; when none does, the book it returns is
  the book it was called on.
\<close>

theorem change_record_reports_success_without_match:
  assumes "map_of book n = Some r"
  shows "\<exists>book'. change_record book [n, old_phone, new_phone]
                    = Inr (PyStr (''Phone number '' @ old_phone @ '' was changed to ''
                                    @ new_phone @ '' for contact '' @ n @ ''.''), book')
           \<and> (old_phone \<notin> set (phones r) \<longrightarrow> book' = book)"
  using assms
  by (simp add: change_record_def input_error_def unpack3_def AddressBook_find_def
      edit_phone_def edit_phone_loop_absent dict_set_same)

theorem change_record_reports_success_without_match_witness:
  "map_of [(''Ann'', \<lparr>name = ''Ann'', phones = [''0501234567''], birthday = None\<rparr>)] ''Ann''
     = Some \<lparr>name = ''Ann'', phones = [''0501234567''], birthday = None\<rparr>
   \<and> ''0000000000'' \<notin> set [''0501234567'']
   \<and> change_record [(''Ann'', \<lparr>name = ''Ann'', phones = [''0501234567''], birthday = None\<rparr>)]
        [''Ann'', ''0000000000'', ''1111111111'']
      = Inr (PyStr ''Phone number 0000000000 was changed to 1111111111 for contact Ann.'',
             [(''Ann'', \<lparr>name = ''Ann'', phones = [''0501234567''], birthday = None\<rparr>)])"
proof -
  let ?r = "\<lparr>name = ''Ann'', phones = [''0501234567''], birthday = None\<rparr>"
  have h: "map_of [(''Ann'', ?r)] ''Ann'' = Some ?r" by simp
  from change_record_reports_success_without_match
         [OF h, of "''0000000000''" "''1111111111''"]
  show ?thesis by auto
qed

section \<open>Properties of Birthday\<close>

text \<open>What a matcher returns, as a set of (matched text, rest).\<close>

lemma in_re_class:
  "(t, r) \<in> set (re_class lo hi s) \<longleftrightarrow>
     (\<exists>c. s = c # r \<and> t = [c] \<and> of_char lo \<le> c \<and> c \<le> of_char hi)"
  by (cases s) (auto simp: re_class_def)

lemma in_re_digit:
  "(t, r) \<in> set (re_digit s) \<longleftrightarrow> (\<exists>c v. s = c # r \<and> t = [c] \<and> decimal_value c = Some v)"
  by (cases s) (auto simp: re_digit_def)

lemma in_re_seq:
  "(t, r) \<in> set (re_seq p q s) \<longleftrightarrow>
     (\<exists>a b r1. (a, r1) \<in> set (p s) \<and> (b, r) \<in> set (q r1) \<and> t = a @ b)"
  by (auto simp: re_seq_def) force+

lemma in_re_alt:
  "(t, r) \<in> set (re_alt p q s) \<longleftrightarrow> (t, r) \<in> set (p s) \<or> (t, r) \<in> set (q s)"
  by (simp add: re_alt_def)

lemma in_re_lit:
  "(t, r) \<in> set (re_lit c0 s) \<longleftrightarrow> s = of_char c0 # r \<and> t = [of_char c0]"
  by (auto simp: re_lit_def in_re_class)

lemma in_then_dot:
  "(t, r) \<in> set (then_dot p s) \<longleftrightarrow> (t, 46 # r) \<in> set (p s)"
proof
  assume "(t, r) \<in> set (then_dot p s)"
  then obtain a r1 dot where "(a, r1) \<in> set (p s)" "(dot, r) \<in> set (re_lit CHR ''.'' r1)" "t = a"
    by (auto simp: then_dot_def)
  then show "(t, 46 # r) \<in> set (p s)" by (simp add: in_re_lit)
next
  assume a: "(t, 46 # r) \<in> set (p s)"
  have "([46], r) \<in> set (re_lit CHR ''.'' (46 # r))" by (simp add: in_re_lit)
  with a show "(t, r) \<in> set (then_dot p s)"
    by (force simp: then_dot_def)
qed

lemma in_digit_class:
  assumes "(t, r) \<in> set (re_class lo hi s)"
    and "48 \<le> (of_char lo :: nat)" and "(of_char hi :: nat) \<le> 57"
  obtains k where "k < 10" "(of_char lo :: nat) \<le> 48 + k" "48 + k \<le> (of_char hi :: nat)"
    "t = [48 + k]" "s = (48 + k) # r"
proof -
  from assms(1) obtain c where c: "s = c # r" "t = [c]" "of_char lo \<le> c" "c \<le> of_char hi"
    by (auto simp: in_re_class)
  define k where "k = c - 48"
  have "k < 10" "c = 48 + k" using c(3,4) assms(2,3) by (simp_all add: k_def)
  with c that show ?thesis by simp
qed

text \<open>The code points of the ASCII spellings of a day or month.\<close>

lemma cp_zero_pad2_two:
  "a < 10 \<Longrightarrow> b < 10 \<Longrightarrow> code_points (zero_pad2 (10 * a + b)) = [48 + a, 48 + b]"
  by (simp add: zero_pad2_digits code_points_def of_char_digit_char)

lemma cp_zero_pad2_one: "b < 10 \<Longrightarrow> code_points (zero_pad2 b) = [48, 48 + b]"
  using cp_zero_pad2_two [of 0 b] by simp

text \<open>What the directives match is a spelling of the number \<open>int\<close> reads from it.\<close>

lemma day_token:
  assumes "(ds, r) \<in> set (re_d s)"
  shows "s = ds @ r \<and> 1 \<le> py_int ds \<and> py_int ds \<le> 31 \<and> day_text ds (py_int ds)"
proof -
  from assms consider
    (thirty) b r1 where "s = 51 # r1" "(b, r) \<in> set (re_class CHR ''0'' CHR ''1'' r1)"
      "ds = 51 # b"
  | (teens) a b r1 where "(a, r1) \<in> set (re_class CHR ''1'' CHR ''2'' s)"
      "(b, r) \<in> set (re_digit r1)" "ds = a @ b"
  | (padded) b r1 where "s = 48 # r1" "(b, r) \<in> set (re_class CHR ''1'' CHR ''9'' r1)"
      "ds = 48 # b"
  | (single) "(ds, r) \<in> set (re_class CHR ''1'' CHR ''9'' s)"
  | (blank) b r1 where "s = 32 # r1" "(b, r) \<in> set (re_class CHR ''1'' CHR ''9'' r1)"
      "ds = 32 # b"
    by (auto simp: re_d_def in_re_alt in_re_seq in_re_lit)
  then show ?thesis
  proof cases
    case thirty
    from thirty(2) obtain k where k: "k < 10" "48 + k \<le> 49" "b = [48 + k]" "r1 = (48 + k) # r"
      by (rule in_digit_class) simp_all
    have p: "py_int ds = 10 * 3 + k"
      unfolding thirty(3) k(3) using k(1) decimal_value_ascii [of 3] decimal_value_ascii [of k]
      by (intro py_int_2) simp_all
    have "ds = code_points (zero_pad2 (10 * 3 + k))"
      using k(1) thirty(3) k(3) cp_zero_pad2_two [of 3 k] by simp
    then have "day_text ds (py_int ds)"
      unfolding p by (simp add: day_text_def day_texts_def)
    then show ?thesis using p k thirty by simp
  next
    case teens
    from teens(1) obtain a' where a: "a' < 10" "49 \<le> 48 + a'" "48 + a' \<le> 50"
      "a = [48 + a']" "s = (48 + a') # r1"
      by (rule in_digit_class) simp_all
    from teens(2) obtain u v where u: "b = [u]" "r1 = u # r" "decimal_value u = Some v"
      by (auto simp: in_re_digit)
    have v: "v < 10" using decimal_value_Some(1) [OF u(3)] .
    have p: "py_int ds = 10 * a' + v"
      unfolding teens(3) a(4) u(1) using decimal_value_ascii [OF a(1)] u(3)
      by (simp add: py_int_2)
    have "day_text ds (10 * a' + v)"
      using a(1,2,3) v u(3) by (simp add: day_text_def teens(3) a(4) u(1))
    then show ?thesis using p a u v teens(3) by simp
  next
    case padded
    from padded(2) obtain k where k: "k < 10" "49 \<le> 48 + k" "b = [48 + k]" "r1 = (48 + k) # r"
      by (rule in_digit_class) simp_all
    have p: "py_int ds = k"
      unfolding padded(3) k(3) using k(1) decimal_value_ascii [of 0] decimal_value_ascii [of k]
      by (simp add: py_int_2)
    have "ds = code_points (zero_pad2 k)"
      using k(1) padded(3) k(3) by (simp add: cp_zero_pad2_one)
    then have "day_text ds (py_int ds)"
      unfolding p by (simp add: day_text_def day_texts_def)
    then show ?thesis using p k padded by simp
  next
    case single
    from single obtain k where k: "k < 10" "49 \<le> 48 + k" "ds = [48 + k]" "s = (48 + k) # r"
      by (rule in_digit_class) simp_all
    have p: "py_int ds = k"
      unfolding k(3) using decimal_value_ascii [OF k(1)] by (rule py_int_1)
    have "ds = code_points (str_nat k)"
      using k(1,3) by (simp add: cp_str_nat_1)
    then have "day_text ds (py_int ds)"
      unfolding p using k(1) by (simp add: day_text_def day_texts_def)
    then show ?thesis using p k by simp
  next
    case blank
    from blank(2) obtain k where k: "k < 10" "49 \<le> 48 + k" "b = [48 + k]" "r1 = (48 + k) # r"
      by (rule in_digit_class) simp_all
    have p: "py_int ds = k"
      unfolding blank(3) k(3) using decimal_value_ascii [OF k(1)] by (rule py_int_blank)
    have "ds = code_points (CHR '' '' # str_nat k)"
      using k(1) k(3) blank(3) by (simp add: code_points_Cons cp_str_nat_1)
    then have "day_text ds (py_int ds)"
      unfolding p using k(1) by (simp add: day_text_def day_texts_def)
    then show ?thesis using p k blank by simp
  qed
qed

lemma month_token:
  assumes "(ms, r) \<in> set (re_m s)"
  shows "s = ms @ r \<and> 1 \<le> py_int ms \<and> py_int ms \<le> 12 \<and> month_text ms (py_int ms)"
proof -
  from assms consider
    (ten) b r1 where "s = 49 # r1" "(b, r) \<in> set (re_class CHR ''0'' CHR ''2'' r1)"
      "ms = 49 # b"
  | (padded) b r1 where "s = 48 # r1" "(b, r) \<in> set (re_class CHR ''1'' CHR ''9'' r1)"
      "ms = 48 # b"
  | (single) "(ms, r) \<in> set (re_class CHR ''1'' CHR ''9'' s)"
    by (auto simp: re_m_def in_re_alt in_re_seq in_re_lit)
  then show ?thesis
  proof cases
    case ten
    from ten(2) obtain k where k: "k < 10" "48 + k \<le> 50" "b = [48 + k]" "r1 = (48 + k) # r"
      by (rule in_digit_class) simp_all
    have p: "py_int ms = 10 * 1 + k"
      unfolding ten(3) k(3) using k(1) decimal_value_ascii [of 1] decimal_value_ascii [of k]
      by (intro py_int_2) simp_all
    have "ms = code_points (zero_pad2 (10 * 1 + k))"
      using k(1) ten(3) k(3) cp_zero_pad2_two [of 1 k] by simp
    then have "month_text ms (py_int ms)"
      unfolding p by (simp add: month_text_def month_texts_def)
    then show ?thesis using p k ten by simp
  next
    case padded
    from padded(2) obtain k where k: "k < 10" "49 \<le> 48 + k" "b = [48 + k]" "r1 = (48 + k) # r"
      by (rule in_digit_class) simp_all
    have p: "py_int ms = k"
      unfolding padded(3) k(3) using k(1) decimal_value_ascii [of 0] decimal_value_ascii [of k]
      by (simp add: py_int_2)
    have "ms = code_points (zero_pad2 k)"
      using k(1) padded(3) k(3) by (simp add: cp_zero_pad2_one)
    then have "month_text ms (py_int ms)"
      unfolding p by (simp add: month_text_def month_texts_def)
    then show ?thesis using p k padded by simp
  next
    case single
    from single obtain k where k: "k < 10" "49 \<le> 48 + k" "ms = [48 + k]" "s = (48 + k) # r"
      by (rule in_digit_class) simp_all
    have p: "py_int ms = k"
      unfolding k(3) using decimal_value_ascii [OF k(1)] by (rule py_int_1)
    have "ms = code_points (str_nat k)"
      using k(1,3) by (simp add: cp_str_nat_1)
    then have "month_text ms (py_int ms)"
      unfolding p using k(1) by (simp add: month_text_def month_texts_def)
    then show ?thesis using p k by simp
  qed
qed

lemma div_mod_10:
  assumes "e < (10::nat)"
  shows "(10 * q + e) div 10 = q" and "(10 * q + e) mod 10 = e"
  using assms by simp_all

lemma digits_of_sum:
  assumes "a < 10" "b < 10" "c < 10" "e < (10::nat)"
  shows "(1000 * a + 100 * b + 10 * c + e) div 1000 mod 10 = a"
    and "(1000 * a + 100 * b + 10 * c + e) div 100 mod 10 = b"
    and "(1000 * a + 100 * b + 10 * c + e) div 10 mod 10 = c"
    and "(1000 * a + 100 * b + 10 * c + e) mod 10 = e"
proof -
  define n where "n = 1000 * a + 100 * b + 10 * c + e"
  define n1 where "n1 = 100 * a + 10 * b + c"
  define n2 where "n2 = 10 * a + b"
  have e0: "n = 10 * n1 + e" by (simp add: n_def n1_def)
  have e1: "n1 = 10 * n2 + c" by (simp add: n1_def n2_def)
  have e2: "n2 = 10 * a + b" by (simp add: n2_def)
  have d1: "n div 10 = n1" and r1: "n mod 10 = e"
    unfolding e0 by (rule div_mod_10 [OF assms(4)])+
  have d2: "n1 div 10 = n2" and r2: "n1 mod 10 = c"
    unfolding e1 by (rule div_mod_10 [OF assms(3)])+
  have d3: "n2 div 10 = a" and r3: "n2 mod 10 = b"
    unfolding e2 by (rule div_mod_10 [OF assms(2)])+
  have "n div 100 = n div 10 div 10" by (simp add: div_mult2_eq)
  then have h2: "n div 100 = n2" by (simp only: d1 d2)
  have "n div 1000 = n div 10 div 10 div 10" by (simp add: div_mult2_eq)
  then have h3: "n div 1000 = a" by (simp only: d1 d2 d3)
  have "n div 1000 mod 10 = a" using h3 assms(1) by simp
  then show "(1000 * a + 100 * b + 10 * c + e) div 1000 mod 10 = a"
    by (simp only: n_def)
  have "n div 100 mod 10 = b" by (simp only: h2 r3)
  then show "(1000 * a + 100 * b + 10 * c + e) div 100 mod 10 = b"
    by (simp only: n_def)
  have "n div 10 mod 10 = c" by (simp only: d1 r2)
  then show "(1000 * a + 100 * b + 10 * c + e) div 10 mod 10 = c"
    by (simp only: n_def)
  show "(1000 * a + 100 * b + 10 * c + e) mod 10 = e"
    using r1 by (simp only: n_def)
qed

lemma digits_sum_back:
  assumes "(y::nat) < 10000"
  shows "1000 * (y div 1000 mod 10) + 100 * (y div 100 mod 10) + 10 * (y div 10 mod 10)
           + y mod 10 = y"
proof -
  have h3: "y div 1000 = y div 10 div 10 div 10" by (simp add: div_mult2_eq)
  have h2: "y div 100 = y div 10 div 10" by (simp add: div_mult2_eq)
  have a: "y div 1000 mod 10 = y div 10 div 10 div 10"
    using decimal_4(1) [OF assms] by (simp add: h3)
  show ?thesis unfolding a h2 by (rule decimal_4(2) [OF assms])
qed

lemma year_token:
  assumes "(ys, r) \<in> set (re_Y s)"
  shows "s = ys @ r \<and> py_int ys < 10000 \<and> year_text ys (py_int ys)"
proof -
  from assms obtain c1 c2 c3 c4 a b c e where
    ys: "ys = [c1, c2, c3, c4]" and s: "s = c1 # c2 # c3 # c4 # r"
    and d: "decimal_value c1 = Some a" "decimal_value c2 = Some b"
      "decimal_value c3 = Some c" "decimal_value c4 = Some e"
    by (auto simp: re_Y_def in_re_seq in_re_digit)
  have p: "py_int ys = 1000 * a + 100 * b + 10 * c + e"
    unfolding ys using d by (rule py_int_4)
  have l: "a < 10" "b < 10" "c < 10" "e < 10"
    using d by (auto dest: decimal_value_Some(1))
  then have lt: "py_int ys < 10000" using p by linarith
  have "year_text ys (1000 * a + 100 * b + 10 * c + e)"
    unfolding year_text_def digits_of_sum [OF l] using lt p d by (simp add: ys)
  then show ?thesis using ys s p lt by simp
qed

lemma strptime_dmY_Inr:
  assumes "strptime_dmY raw = Inr x"
  shows "valid_date x \<and> year x \<le> 9999
         \<and> (\<exists>ds ms ys. raw = ds @ [46] @ ms @ [46] @ ys
               \<and> day_text ds (day x) \<and> month_text ms (month x) \<and> year_text ys (year x))"
proof -
  from assms obtain ds ms ys others where
    m: "match_dmY raw = (ds, ms, ys, []) # others"
    and dd: "datetime_date (py_int ys) (py_int ms) (py_int ds) = Inr x"
    by (auto simp: strptime_dmY_def strptime_found_def split: list.splits if_splits)
  from m have "(ds, ms, ys, []) \<in> set (match_dmY raw)" by simp
  then obtain r1 r2 where
    d: "(ds, 46 # r1) \<in> set (re_d raw)"
    and mo: "(ms, 46 # r2) \<in> set (re_m r1)"
    and y: "(ys, []) \<in> set (re_Y r2)"
    by (auto simp: match_dmY_def in_then_dot)
  from day_token [OF d] have d': "raw = ds @ 46 # r1" "day_text ds (py_int ds)"
    by simp_all
  from month_token [OF mo] have m': "r1 = ms @ 46 # r2" "month_text ms (py_int ms)"
    by simp_all
  from year_token [OF y] have y': "r2 = ys" "year_text ys (py_int ys)"
    by simp_all
  from datetime_date_Inr [OF dd] have
    x: "x = \<lparr>year = py_int ys, month = py_int ms, day = py_int ds\<rparr>"
    and v: "valid_date x" "py_int ys \<le> 9999"
    by blast+
  have "raw = ds @ [46] @ ms @ [46] @ ys"
    using d'(1) m'(1) y'(1) by simp
  with d'(2) m'(2) y'(2) have
    "\<exists>ds ms ys. raw = ds @ [46] @ ms @ [46] @ ys
       \<and> day_text ds (day x) \<and> month_text ms (month x) \<and> year_text ys (year x)"
    unfolding x by (intro exI [of _ ds] exI [of _ ms] exI [of _ ys]) simp
  with v x show ?thesis by simp
qed

text \<open>Every spelling of a number is matched whole and read back as the number.\<close>

lemma tens_digit: "10 \<le> (d::nat) \<Longrightarrow> d \<le> 29 \<Longrightarrow> d div 10 = 1 \<or> d div 10 = 2"
  by arith

lemma day_text_dot:
  assumes "1 \<le> d" "d \<le> 31" "day_text ds d"
  shows "then_dot re_d (ds @ 46 # r) = [(ds, r)] \<and> py_int ds = d"
proof -
  from assms(3) consider
    (ascii) "ds \<in> set (map code_points (day_texts d))"
  | (any) a u where "10 \<le> d" "d \<le> 29" "ds = [a, u]" "a = 48 + d div 10"
      "decimal_value u = Some (d mod 10)"
    by (auto simp: day_text_def split: list.splits)
  then show ?thesis
  proof cases
    case ascii
    with day_cases [OF assms(1,2)] show ?thesis
      by (elim disjE)
         (auto simp: day_texts_def zero_pad2_def str_nat.simps digit_char_def code_points_def
            re_simps py_int_def)
  next
    case any
    have u: "48 \<le> u" using decimal_value_Some(2) [OF any(5)] .
    have p: "py_int ds = 10 * (d div 10) + d mod 10"
      unfolding any(3,4) using any(5) tens_digit [OF any(1,2)]
      by (intro py_int_2 decimal_value_ascii) auto
    from tens_digit [OF any(1,2)] have "then_dot re_d (ds @ 46 # r) = [(ds, r)]"
      using u any(5) by (elim disjE) (simp_all add: any(3,4) re_simps)
    with p show ?thesis by simp
  qed
qed

lemma month_text_dot:
  assumes "1 \<le> m" "m \<le> 12" "month_text ms m"
  shows "then_dot re_m (ms @ 46 # r) = [(ms, r)] \<and> py_int ms = m"
  using month_cases [OF assms(1,2)] assms(3)
  by (elim disjE)
     (auto simp: month_text_def month_texts_def zero_pad2_def str_nat.simps digit_char_def
        code_points_def re_simps py_int_def)

lemma year_text_end:
  assumes "year_text ys y"
  shows "re_Y ys = [(ys, [])]" and "py_int ys = y"
proof -
  from assms obtain c1 c2 c3 c4 where ys: "ys = [c1, c2, c3, c4]"
    and d: "decimal_value c1 = Some (y div 1000 mod 10)"
      "decimal_value c2 = Some (y div 100 mod 10)"
      "decimal_value c3 = Some (y div 10 mod 10)" "decimal_value c4 = Some (y mod 10)"
    and y: "y < 10000"
    by (auto simp: year_text_def list_all2_Cons2)
  show "re_Y ys = [(ys, [])]" unfolding ys using d by (rule re_Y_digits)
  have "py_int ys = 1000 * (y div 1000 mod 10) + 100 * (y div 100 mod 10)
                      + 10 * (y div 10 mod 10) + y mod 10"
    unfolding ys using d by (rule py_int_4)
  with digits_sum_back [OF y] show "py_int ys = y" by (simp only:)
qed

lemma year_text_zero_pad4:
  assumes "y < 10000"
  shows "year_text (code_points (zero_pad4 y)) y"
  using assms
  by (simp add: year_text_def zero_pad4_def code_points_def of_char_digit_char
      decimal_value_ascii)

lemma strptime_dmY_text:
  assumes "valid_date x" "year x \<le> 9999"
    and "day_text ds (day x)" "month_text ms (month x)" "year_text ys (year x)"
  shows "strptime_dmY (ds @ [46] @ ms @ [46] @ ys) = Inr x"
proof -
  from assms(1) have m: "1 \<le> month x" "month x \<le> 12" and d1: "1 \<le> day x"
    and dm: "day x \<le> days_in_month (year x) (month x)" and y1: "1 \<le> year x"
    by (simp_all add: valid_date_def)
  have d2: "day x \<le> 31" using dm days_in_month_le_31 [OF m, of "year x"] by simp
  note D = day_text_dot [OF d1 d2 assms(3)]
  note M = month_text_dot [OF m assms(4)]
  note Y = year_text_end [OF assms(5)]
  have "match_dmY (ds @ [46] @ ms @ [46] @ ys) = [(ds, ms, ys, [])]"
    by (simp add: match_dmY_def D M Y)
  then show ?thesis
    using D M Y assms(2) m d1 dm y1
    by (simp add: strptime_dmY_def strptime_found_def datetime_date_def)
qed

lemma strptime_dmY_ValueError:
  "strptime_dmY raw = Inl e \<Longrightarrow> \<exists>msg. e = ValueError msg"
  by (auto simp: strptime_dmY_def strptime_found_def datetime_date_def
      split: list.splits if_splits)

lemma Birthday_cases:
  "(\<exists>x. Birthday raw = Inr x \<and> strptime_dmY raw = Inr x)
   \<or> (Birthday raw = Inl (ValueError ''Invalid date format. Use DD.MM.YYYY'')
       \<and> (\<exists>e. strptime_dmY raw = Inl e))"
proof (cases "strptime_dmY raw")
  case (Inl e)
  with strptime_dmY_ValueError [OF Inl] show ?thesis by (auto simp: Birthday_def)
next
  case (Inr x)
  then show ?thesis by (simp add: Birthday_def)
qed

lemma strict_text_spelling:
  assumes "valid_date x" "year x \<le> 9999"
  shows "code_points (zero_pad2 (day x) @ ''.'' @ zero_pad2 (month x) @ ''.'' @ zero_pad4 (year x))
           = code_points (zero_pad2 (day x)) @ [46] @ code_points (zero_pad2 (month x)) @ [46]
               @ code_points (zero_pad4 (year x))"
    and "day_text (code_points (zero_pad2 (day x))) (day x)"
    and "month_text (code_points (zero_pad2 (month x))) (month x)"
    and "year_text (code_points (zero_pad4 (year x))) (year x)"
    and "is_DD_MM_YYYY
           (zero_pad2 (day x) @ ''.'' @ zero_pad2 (month x) @ ''.'' @ zero_pad4 (year x))"
proof -
  show "code_points (zero_pad2 (day x) @ ''.'' @ zero_pad2 (month x) @ ''.'' @ zero_pad4 (year x))
           = code_points (zero_pad2 (day x)) @ [46] @ code_points (zero_pad2 (month x)) @ [46]
               @ code_points (zero_pad4 (year x))"
    by (simp add: code_points_def)
  show "day_text (code_points (zero_pad2 (day x))) (day x)"
    by (simp add: day_text_def day_texts_def)
  show "month_text (code_points (zero_pad2 (month x))) (month x)"
    by (simp add: month_text_def month_texts_def)
  show "year_text (code_points (zero_pad4 (year x))) (year x)"
    using assms(2) by (intro year_text_zero_pad4) simp
  from assms(1) have m: "month x < 100" and "1 \<le> month x" "month x \<le> 12"
    and dm: "day x \<le> days_in_month (year x) (month x)"
    by (simp_all add: valid_date_def)
  then have "day x \<le> 31" using days_in_month_le_31 [of "month x" "year x"] by simp
  then have d: "day x < 100" by simp
  have m10: "month x div 10 < 10" using m by simp
  have d10: "day x div 10 < 10" using d by simp
  show "is_DD_MM_YYYY
          (zero_pad2 (day x) @ ''.'' @ zero_pad2 (month x) @ ''.'' @ zero_pad4 (year x))"
    using m10 d10
    by (simp add: is_DD_MM_YYYY_def zero_pad2_digits [OF m] zero_pad2_digits [OF d]
        zero_pad4_def ascii_digit_digit_char)
qed

lemmas parse_simps =
  Birthday_def strptime_dmY_def strptime_found_def match_dmY_def py_int_def code_points_def
  re_simps is_leap_def days_in_month_def datetime_date_def

text \<open>
  C7, as the code has it. \<open>1.2.2020\<close>, with a one-digit day and a one-digit month, and
  \<open> 1.02.2020\<close>, with a blank before the day, are not of the shape \<open>DD.MM.YYYY\<close>, and
  \<open>Birthday\<close> accepts both as 1 February 2020.
\<close>

theorem Birthday_short_day_counterexample:
  "Birthday (code_points ''1.2.2020'') = Inr \<lparr>year = 2020, month = 2, day = 1\<rparr>
   \<and> \<not> is_DD_MM_YYYY ''1.2.2020''
   \<and> Birthday (code_points '' 1.02.2020'') = Inr \<lparr>year = 2020, month = 2, day = 1\<rparr>
   \<and> \<not> is_DD_MM_YYYY '' 1.02.2020''"
  by (simp add: parse_simps is_DD_MM_YYYY_def ascii_digit_def)

text \<open>
  C7, amended. \<open>Birthday raw\<close> succeeds with the date \<open>x\<close> exactly when \<open>x\<close> is a date
  of the calendar with a year from 1 to 9999 and \<open>raw\<close> is a spelling of the day of
  \<open>x\<close>, a dot, a spelling of its month, a dot and a spelling of its year, with nothing
  before or after (so year, month and day are the ones written); an input that does not
  succeed raises the \<open>ValueError\<close> of the date format; and the strict spelling
  \<open>DD.MM.YYYY\<close> of every such date succeeds.
\<close>

theorem Birthday_accepts_spellings:
  "(Birthday raw = Inr x \<longleftrightarrow>
      valid_date x \<and> year x \<le> 9999
      \<and> (\<exists>ds ms ys. raw = ds @ [46] @ ms @ [46] @ ys
            \<and> day_text ds (day x) \<and> month_text ms (month x) \<and> year_text ys (year x)))
   \<and> ((\<exists>x'. Birthday raw = Inr x')
        \<or> Birthday raw = Inl (ValueError ''Invalid date format. Use DD.MM.YYYY''))
   \<and> (valid_date x \<and> year x \<le> 9999 \<longrightarrow>
        is_DD_MM_YYYY (zero_pad2 (day x) @ ''.'' @ zero_pad2 (month x) @ ''.'' @ zero_pad4 (year x))
        \<and> Birthday (code_points
             (zero_pad2 (day x) @ ''.'' @ zero_pad2 (month x) @ ''.'' @ zero_pad4 (year x)))
            = Inr x)"
proof (intro conjI)
  show "Birthday raw = Inr x \<longleftrightarrow>
          valid_date x \<and> year x \<le> 9999
          \<and> (\<exists>ds ms ys. raw = ds @ [46] @ ms @ [46] @ ys
                \<and> day_text ds (day x) \<and> month_text ms (month x) \<and> year_text ys (year x))"
  proof
    assume "Birthday raw = Inr x"
    with Birthday_cases [of raw] have "strptime_dmY raw = Inr x" by auto
    then show "valid_date x \<and> year x \<le> 9999
          \<and> (\<exists>ds ms ys. raw = ds @ [46] @ ms @ [46] @ ys
                \<and> day_text ds (day x) \<and> month_text ms (month x) \<and> year_text ys (year x))"
      by (rule strptime_dmY_Inr)
  next
    assume a: "valid_date x \<and> year x \<le> 9999
          \<and> (\<exists>ds ms ys. raw = ds @ [46] @ ms @ [46] @ ys
                \<and> day_text ds (day x) \<and> month_text ms (month x) \<and> year_text ys (year x))"
    then obtain ds ms ys where raw: "raw = ds @ [46] @ ms @ [46] @ ys"
      and t: "day_text ds (day x)" "month_text ms (month x)" "year_text ys (year x)"
      by blast
    from a have "strptime_dmY raw = Inr x"
      unfolding raw by (intro strptime_dmY_text t) simp_all
    then show "Birthday raw = Inr x" by (simp add: Birthday_def)
  qed
  show "(\<exists>x'. Birthday raw = Inr x')
          \<or> Birthday raw = Inl (ValueError ''Invalid date format. Use DD.MM.YYYY'')"
    using Birthday_cases [of raw] by blast
  show "valid_date x \<and> year x \<le> 9999 \<longrightarrow>
        is_DD_MM_YYYY (zero_pad2 (day x) @ ''.'' @ zero_pad2 (month x) @ ''.'' @ zero_pad4 (year x))
        \<and> Birthday (code_points
             (zero_pad2 (day x) @ ''.'' @ zero_pad2 (month x) @ ''.'' @ zero_pad4 (year x)))
            = Inr x"
  proof
    assume v: "valid_date x \<and> year x \<le> 9999"
    then have v1: "valid_date x" and v2: "year x \<le> 9999" by simp_all
    note S = strict_text_spelling [OF v1 v2]
    have "strptime_dmY (code_points
            (zero_pad2 (day x) @ ''.'' @ zero_pad2 (month x) @ ''.'' @ zero_pad4 (year x)))
          = Inr x"
      unfolding S(1) using v1 v2 S(2,3,4) by (rule strptime_dmY_text)
    with S(5) show "is_DD_MM_YYYY
        (zero_pad2 (day x) @ ''.'' @ zero_pad2 (month x) @ ''.'' @ zero_pad4 (year x))
        \<and> Birthday (code_points
             (zero_pad2 (day x) @ ''.'' @ zero_pad2 (month x) @ ''.'' @ zero_pad4 (year x)))
            = Inr x"
      by (simp add: Birthday_def)
  qed
qed

theorem Birthday_accepts_spellings_witness:
  "Birthday (code_points ''12.06.1990'') = Inr \<lparr>year = 1990, month = 6, day = 12\<rparr>
   \<and> is_DD_MM_YYYY ''12.06.1990''
   \<and> Birthday (code_points ''12.06.'' @ [1633, 1641, 1641, 1632])
       = Inr \<lparr>year = 1990, month = 6, day = 12\<rparr>
   \<and> Birthday ([49, 1634] @ code_points ''.06.1990'')
       = Inr \<lparr>year = 1990, month = 6, day = 12\<rparr>
   \<and> Birthday ([65297, 65298] @ code_points ''.06.1990'')
       = Inl (ValueError ''Invalid date format. Use DD.MM.YYYY'')
   \<and> Birthday (code_points ''12.0'' @ [1638] @ code_points ''.1990'')
       = Inl (ValueError ''Invalid date format. Use DD.MM.YYYY'')
   \<and> Birthday (code_points ''31.02.2020'')
       = Inl (ValueError ''Invalid date format. Use DD.MM.YYYY'')
   \<and> Birthday (code_points ''00.01.2020'')
       = Inl (ValueError ''Invalid date format. Use DD.MM.YYYY'')
   \<and> Birthday (code_points ''aa.bb.cccc'')
       = Inl (ValueError ''Invalid date format. Use DD.MM.YYYY'')
   \<and> Birthday (code_points ''12.06.1990 '')
       = Inl (ValueError ''Invalid date format. Use DD.MM.YYYY'')"
proof -
  let ?x = "\<lparr>year = 1990, month = 6, day = 12\<rparr>"
  have v: "valid_date ?x" "year ?x \<le> 9999"
    by (simp_all add: valid_date_def days_in_month_def)
  have d: "day_text (code_points ''12'') 12" "day_text [49, 1634] 12"
    by (simp_all add: day_text_def day_texts_def zero_pad2_def str_nat.simps digit_char_def
        code_points_def decimal_value_def decimal_zeros_def)
  have m: "month_text (code_points ''06'') 6"
    by (simp add: month_text_def month_texts_def zero_pad2_def str_nat.simps digit_char_def
        code_points_def)
  have y: "year_text (code_points ''1990'') 1990" "year_text [1633, 1641, 1641, 1632] 1990"
    by (simp_all add: year_text_def code_points_def decimal_value_def decimal_zeros_def)
  have t1: "\<exists>ds ms ys. code_points ''12.06.1990'' = ds @ [46] @ ms @ [46] @ ys
              \<and> day_text ds (day ?x) \<and> month_text ms (month ?x) \<and> year_text ys (year ?x)"
    using d(1) m y(1)
    by (intro exI [of _ "code_points ''12''"] exI [of _ "code_points ''06''"]
          exI [of _ "code_points ''1990''"])
       (simp add: code_points_def)
  have t2: "\<exists>ds ms ys. code_points ''12.06.'' @ [1633, 1641, 1641, 1632]
                = ds @ [46] @ ms @ [46] @ ys
              \<and> day_text ds (day ?x) \<and> month_text ms (month ?x) \<and> year_text ys (year ?x)"
    using d(1) m y(2)
    by (intro exI [of _ "code_points ''12''"] exI [of _ "code_points ''06''"]
          exI [of _ "[1633, 1641, 1641, 1632]"])
       (simp add: code_points_def)
  have t3: "\<exists>ds ms ys. [49, 1634] @ code_points ''.06.1990'' = ds @ [46] @ ms @ [46] @ ys
              \<and> day_text ds (day ?x) \<and> month_text ms (month ?x) \<and> year_text ys (year ?x)"
    using d(2) m y(1)
    by (intro exI [of _ "[49, 1634]"] exI [of _ "code_points ''06''"]
          exI [of _ "code_points ''1990''"])
       (simp add: code_points_def)
  have a1: "Birthday (code_points ''12.06.1990'') = Inr ?x"
    using Birthday_accepts_spellings [of "code_points ''12.06.1990''" ?x] v t1 by blast
  have a2: "Birthday (code_points ''12.06.'' @ [1633, 1641, 1641, 1632]) = Inr ?x"
    using Birthday_accepts_spellings [of "code_points ''12.06.'' @ [1633, 1641, 1641, 1632]" ?x]
      v t2 by blast
  have a3: "Birthday ([49, 1634] @ code_points ''.06.1990'') = Inr ?x"
    using Birthday_accepts_spellings [of "[49, 1634] @ code_points ''.06.1990''" ?x] v t3
    by blast
  have s: "is_DD_MM_YYYY ''12.06.1990''"
    by (simp add: is_DD_MM_YYYY_def ascii_digit_def)
  have r:
    "Birthday ([65297, 65298] @ code_points ''.06.1990'')
       = Inl (ValueError ''Invalid date format. Use DD.MM.YYYY'')"
    "Birthday (code_points ''12.0'' @ [1638] @ code_points ''.1990'')
       = Inl (ValueError ''Invalid date format. Use DD.MM.YYYY'')"
    "Birthday (code_points ''31.02.2020'')
       = Inl (ValueError ''Invalid date format. Use DD.MM.YYYY'')"
    "Birthday (code_points ''00.01.2020'')
       = Inl (ValueError ''Invalid date format. Use DD.MM.YYYY'')"
    "Birthday (code_points ''aa.bb.cccc'')
       = Inl (ValueError ''Invalid date format. Use DD.MM.YYYY'')"
    "Birthday (code_points ''12.06.1990 '')
       = Inl (ValueError ''Invalid date format. Use DD.MM.YYYY'')"
    by (simp_all add: parse_simps)
  from a1 a2 a3 s r show ?thesis by (simp only: simp_thms)
qed

end
